theory Spec2Isabelle
  imports Main "HOL-Library.AList"
begin

text \<open>
  A model of the key-value CRUD worker: the controller of src/plugins/KV.ts, which wraps
  the store binding of the platform, and the route table of src/router/route.ts with its
  guards and the handlers that read an entry back.
\<close>

section \<open>JavaScript errors\<close>

text \<open>
  A thrown value is an error object with a name and a message. The controller's
  catch clauses all read \<^verbatim>\<open>throw new Error(error)\<close>: the caught object is handed to
  the \<^verbatim>\<open>Error\<close> constructor, which converts its argument to a string. For an error
  object that conversion is \<^verbatim>\<open>Error.prototype.toString\<close>: the name, a colon and a
  blank, and the message (only the one that is not empty if the other is).
\<close>

datatype js_error = JsError (err_name: string) (err_message: string)

definition toString :: "js_error \<Rightarrow> string" where
  "toString e =
     (if err_name e = [] then err_message e
      else if err_message e = [] then err_name e
      else err_name e @ '': '' @ err_message e)"

definition new_Error :: "string \<Rightarrow> js_error" where
  "new_Error msg = JsError ''Error'' msg"

text \<open>
  Reading a property of \<^verbatim>\<open>null\<close> throws a \<^verbatim>\<open>TypeError\<close>; the message is the one of the
  V8 engine.
\<close>

definition null_read_TypeError :: "string \<Rightarrow> js_error" where
  "null_read_TypeError p =
     JsError ''TypeError''
       (''Cannot read properties of null (reading '' @ [CHR 0x27] @ p @ [CHR 0x27] @ '')'')"

section \<open>The external key-value service\<close>

text \<open>
  Modelled from the spec: the external key-value service behind the \<^verbatim>\<open>KVNamespace\<close>
  binding, whose implementation is the platform's and not part of the repository. The
  spec names its operations (get, put, delete, list), says that the value type is
  "stored as attached metadata alongside the value", and leaves the rest to the
  platform. The model gives the operations the behaviour of a finite map: an entry
  holds a value, the metadata and the expiration settings of the put that wrote it; a
  put replaces the whole entry; get and getWithMetadata answer null for a key without
  an entry, and null metadata for an entry written without metadata; delete of a key
  without an entry succeeds.

  The store is an association list from keys to entries. What the platform decides is a
  component of the store, so that the theorems hold whatever it decides: \<open>faults\<close> is a
  script with one item per call still to come, \<open>Some e\<close> making that call throw \<open>e\<close>
  without any effect on the entries (an exhausted script means success); \<open>list_limit\<close> is
  the number of keys that one \<^verbatim>\<open>list()\<close> call returns. \<open>calls\<close> records every call that
  the controller issues, in order. A listing is in the order of the association list.
  Expiry of entries over time, stale cached reads and calls of other clients between
  two calls of the controller are not modelled.
\<close>

datatype kv_value = Text string | Bytes "nat list"

type_synonym metadata = "(string \<times> string) list"

record put_options =
  expiration :: "int option"
  expirationTtl :: "int option"
  metadata :: "metadata option"

record kv_entry =
  entry_val :: kv_value
  entry_metadata :: "metadata option"
  entry_expiration :: "int option"
  entry_expirationTtl :: "int option"

datatype list_key = ListKey (key_name: string)

datatype kv_call =
    CallGet string "string list"
  | CallGetWithMetadata string
  | CallPut string kv_value put_options
  | CallDelete string
  | CallList

record store =
  entries :: "(string \<times> kv_entry) list"
  faults :: "js_error option list"
  list_limit :: nat
  calls :: "kv_call list"

type_synonym 'a promise = "(js_error + 'a) \<times> store"

definition store_call :: "kv_call \<Rightarrow> store \<Rightarrow> js_error option \<times> store" where
  "store_call c s =
     ((case faults s of [] \<Rightarrow> None | f # _ \<Rightarrow> f),
      s\<lparr>faults := tl (faults s), calls := calls s @ [c]\<rparr>)"

text \<open>
  \<^verbatim>\<open>get(key, type)\<close> reads the value as the type that its second argument names, as
  text when there is none. The model's strings are byte strings, so the bytes of a text
  are its characters, and bytes read as text are kept as they are (the platform's
  decoder would replace ill-formed input). Other type names (\<^verbatim>\<open>json\<close>, \<^verbatim>\<open>stream\<close>) are not
  modelled: the value is answered as stored.
\<close>

definition read_as :: "string list \<Rightarrow> kv_value \<Rightarrow> kv_value" where
  "read_as options v =
     (let ty = (case options of [] \<Rightarrow> ''text'' | t # _ \<Rightarrow> t)
      in if ty = ''arrayBuffer''
         then (case v of Text x \<Rightarrow> Bytes (map of_char x) | Bytes b \<Rightarrow> Bytes b)
         else if ty = ''text''
         then (case v of Text x \<Rightarrow> Text x | Bytes b \<Rightarrow> Text (map char_of b))
         else v)"

definition kv_get :: "string \<Rightarrow> string list \<Rightarrow> store \<Rightarrow> kv_value option promise" where
  "kv_get key options s =
     (case store_call (CallGet key options) s of
        (Some e, s1) \<Rightarrow> (Inl e, s1)
      | (None, s1) \<Rightarrow>
          (Inr (map_option (read_as options \<circ> entry_val) (map_of (entries s1) key)), s1))"

definition kv_getWithMetadata ::
  "string \<Rightarrow> store \<Rightarrow> (kv_value option \<times> metadata option) promise" where
  "kv_getWithMetadata key s =
     (case store_call (CallGetWithMetadata key) s of
        (Some e, s1) \<Rightarrow> (Inl e, s1)
      | (None, s1) \<Rightarrow>
          (case map_of (entries s1) key of
             None \<Rightarrow> (Inr (None, None), s1)
           | Some en \<Rightarrow> (Inr (Some (entry_val en), entry_metadata en), s1)))"

definition kv_put :: "string \<Rightarrow> kv_value \<Rightarrow> put_options \<Rightarrow> store \<Rightarrow> unit promise" where
  "kv_put key v opts s =
     (case store_call (CallPut key v opts) s of
        (Some e, s1) \<Rightarrow> (Inl e, s1)
      | (None, s1) \<Rightarrow>
          (Inr (),
           s1\<lparr>entries :=
                AList.update key
                  \<lparr>entry_val = v, entry_metadata = metadata opts,
                   entry_expiration = expiration opts,
                   entry_expirationTtl = expirationTtl opts\<rparr>
                  (entries s1)\<rparr>))"

definition kv_delete :: "string \<Rightarrow> store \<Rightarrow> unit promise" where
  "kv_delete key s =
     (case store_call (CallDelete key) s of
        (Some e, s1) \<Rightarrow> (Inl e, s1)
      | (None, s1) \<Rightarrow> (Inr (), s1\<lparr>entries := AList.delete key (entries s1)\<rparr>))"

definition kv_list :: "store \<Rightarrow> list_key list promise" where
  "kv_list s =
     (case store_call CallList s of
        (Some e, s1) \<Rightarrow> (Inl e, s1)
      | (None, s1) \<Rightarrow> (Inr (map (ListKey \<circ> fst) (take (list_limit s1) (entries s1))), s1))"

section \<open>The controller (src/plugins/KV.ts)\<close>

text \<open>
  An \<^verbatim>\<open>async\<close> method is a function from the store to a result and the store after
  it: \<open>Inl e\<close> is a rejection with the thrown \<open>e\<close>, \<open>Inr v\<close> a return of \<open>v\<close>.
  \<open>await\<close> runs the rest of the body on the value of a call, and passes a rejection on;
  \<open>catch_rethrow\<close> is \<^verbatim>\<open>catch (error: any) { throw new Error(error); }\<close>.
\<close>

definition await :: "'a promise \<Rightarrow> ('a \<Rightarrow> store \<Rightarrow> 'b promise) \<Rightarrow> 'b promise" where
  "await r f = (case r of (Inl e, s) \<Rightarrow> (Inl e, s) | (Inr a, s) \<Rightarrow> f a s)"

definition catch_rethrow :: "'a promise \<Rightarrow> 'a promise" where
  "catch_rethrow r =
     (case r of (Inl e, s) \<Rightarrow> (Inl (new_Error (toString e)), s) | (Inr a, s) \<Rightarrow> (Inr a, s))"

definition VALUE_TYPE_TEXT :: string where
  "VALUE_TYPE_TEXT = ''TEXT''"

definition VALUE_TYPE_STREAM :: string where
  "VALUE_TYPE_STREAM = ''STREAM''"

definition getKeys :: "store \<Rightarrow> string list promise" where
  "getKeys s = await (kv_list s) (\<lambda>keys s1. (Inr (map key_name keys), s1))"

definition hasKey :: "string \<Rightarrow> store \<Rightarrow> bool promise" where
  "hasKey key s = await (getKeys s) (\<lambda>keys s1. (Inr (key \<in> set keys), s1))"

text \<open>
  The options object that \<open>addItem\<close> hands to put: the caller's options spread, with
  \<^verbatim>\<open>expirationTtl: options?.expirationTtl ?? 60\<close> and \<^verbatim>\<open>expiration: options?.expiration ?? 60\<close>.
\<close>

definition addItem_options :: "put_options option \<Rightarrow> put_options" where
  "addItem_options options =
     \<lparr>expiration =
        Some (case options of None \<Rightarrow> 60
              | Some opts \<Rightarrow> (case expiration opts of None \<Rightarrow> 60 | Some x \<Rightarrow> x)),
      expirationTtl =
        Some (case options of None \<Rightarrow> 60
              | Some opts \<Rightarrow> (case expirationTtl opts of None \<Rightarrow> 60 | Some x \<Rightarrow> x)),
      metadata = (case options of None \<Rightarrow> None | Some opts \<Rightarrow> metadata opts)\<rparr>"

definition addItem_try :: "string \<Rightarrow> kv_value \<Rightarrow> put_options option \<Rightarrow> store \<Rightarrow> unit promise" where
  "addItem_try key v options s =
     await (hasKey key s) (\<lambda>found s1.
       if found then (Inl (new_Error (''Key '' @ key @ '' already exists'')), s1)
       else kv_put key v (addItem_options options) s1)"

definition addItem :: "string \<Rightarrow> kv_value \<Rightarrow> put_options option \<Rightarrow> store \<Rightarrow> unit promise" where
  "addItem key v options s = catch_rethrow (addItem_try key v options s)"

record item =
  item_key :: string
  item_val :: kv_value
  item_options :: "put_options option"

fun addItems_loop :: "item list \<Rightarrow> store \<Rightarrow> unit promise" where
  "addItems_loop [] s = (Inr (), s)"
| "addItems_loop (it # rest) s =
     (case addItem (item_key it) (item_val it) (item_options it) s of
        (Inl e, s1) \<Rightarrow> (Inl e, s1)
      | (Inr _, s1) \<Rightarrow> addItems_loop rest s1)"

definition addItems :: "item list \<Rightarrow> store \<Rightarrow> unit promise" where
  "addItems items s =
     catch_rethrow
       (if length items = 0 then (Inl (new_Error ''No items to add''), s)
        else addItems_loop items s)"

text \<open>
  \<open>updateItem\<close> reads the entry's metadata and hands it to put, after the caller's
  options: \<^verbatim>\<open>{ ...options, metadata }\<close>.
\<close>

definition updateItem_options :: "put_options option \<Rightarrow> metadata option \<Rightarrow> put_options" where
  "updateItem_options options md =
     \<lparr>expiration = (case options of None \<Rightarrow> None | Some opts \<Rightarrow> expiration opts),
      expirationTtl = (case options of None \<Rightarrow> None | Some opts \<Rightarrow> expirationTtl opts),
      metadata = md\<rparr>"

definition updateItem :: "string \<Rightarrow> kv_value \<Rightarrow> put_options option \<Rightarrow> store \<Rightarrow> unit promise" where
  "updateItem key v options s =
     catch_rethrow
       (await (kv_getWithMetadata key s) (\<lambda>got s1.
          kv_put key v (updateItem_options options (snd got)) s1))"

text \<open>
  \<open>getItem\<close> returns an object \<^verbatim>\<open>{ value, valueType: metadata!.valueType }\<close>. The
  non-null assertion is erased by the compiler, so with \<^verbatim>\<open>metadata\<close> null the property
  read throws. JavaScript's \<^verbatim>\<open>null\<close> and \<^verbatim>\<open>undefined\<close> are \<open>None\<close>: the result of
  \<open>getItem\<close> is typed as a value that may be null because its callers test it. The
  rest parameter \<^verbatim>\<open>...options\<close> is handed to get as it is.
\<close>

record get_result =
  result_val :: "kv_value option"
  valueType :: "string option"

definition getItem :: "string \<Rightarrow> string list \<Rightarrow> store \<Rightarrow> get_result option promise" where
  "getItem key options s =
     catch_rethrow
       (await (kv_get key options s) (\<lambda>v s1.
          await (kv_getWithMetadata key s1) (\<lambda>got s2.
            case snd got of
              None \<Rightarrow> (Inl (null_read_TypeError ''valueType''), s2)
            | Some md \<Rightarrow>
                (Inr (Some \<lparr>result_val = v, valueType = map_of md ''valueType''\<rparr>), s2))))"

definition deleteItem :: "string \<Rightarrow> store \<Rightarrow> unit promise" where
  "deleteItem key s = catch_rethrow (kv_delete key s)"

fun deleteItems_loop :: "string list \<Rightarrow> store \<Rightarrow> unit promise" where
  "deleteItems_loop [] s = (Inr (), s)"
| "deleteItems_loop (key # rest) s =
     (case deleteItem key s of
        (Inl e, s1) \<Rightarrow> (Inl e, s1)
      | (Inr _, s1) \<Rightarrow> deleteItems_loop rest s1)"

definition deleteItems :: "string list \<Rightarrow> store \<Rightarrow> unit promise" where
  "deleteItems keys s =
     catch_rethrow
       (if length keys = 0 then (Inl (new_Error ''No keys to delete''), s)
        else deleteItems_loop keys s)"

text \<open>
  \<open>clear\<close> maps \<^verbatim>\<open>this.kv.delete\<close> over the listed keys, which issues every delete, and
  awaits \<^verbatim>\<open>Promise.all\<close> of the promises. \<open>delete_each\<close> is the map: every delete runs
  whether or not an earlier one failed. \<open>promise_all\<close> rejects with a rejection among
  the results (the first in the list's order; which one settles first in time is the
  platform's) and fulfils when there is none.
\<close>

fun delete_each :: "list_key list \<Rightarrow> store \<Rightarrow> (js_error + unit) list \<times> store" where
  "delete_each [] s = ([], s)"
| "delete_each (key # rest) s =
     (case kv_delete (key_name key) s of
        (r, s1) \<Rightarrow> (case delete_each rest s1 of (rs, s2) \<Rightarrow> (r # rs, s2)))"

fun promise_all :: "(js_error + 'a) list \<Rightarrow> js_error + 'a list" where
  "promise_all [] = Inr []"
| "promise_all (Inl e # rs) = Inl e"
| "promise_all (Inr a # rs) = (case promise_all rs of Inl e \<Rightarrow> Inl e | Inr as \<Rightarrow> Inr (a # as))"

definition clear :: "store \<Rightarrow> unit promise" where
  "clear s =
     catch_rethrow
       (await (kv_list s) (\<lambda>keys s1.
          case delete_each keys s1 of
            (rs, s2) \<Rightarrow>
              (case promise_all rs of Inl e \<Rightarrow> (Inl e, s2) | Inr _ \<Rightarrow> (Inr (), s2))))"

text \<open>
  \<open>getAll\<close> has no catch clause. The text shown for a value that is not of type TEXT
  is a Chinese sentence ("viewing is not supported, download it to view"), given here
  by its UTF-8 bytes.
\<close>

definition NOT_VIEWABLE :: string where
  "NOT_VIEWABLE =
     map char_of
       [230, 154, 130, 228, 184, 141, 230, 148, 175, 230, 140, 129, 230, 159, 165, 231,
        156, 139, 239, 188, 140, 232, 175, 183, 228, 184, 139, 232, 189, 189, 229, 144,
        142, 230, 159, 165, 231, 156, 139 :: nat]"

record all_item =
  all_key :: string
  all_val :: "kv_value option"
  all_valueType :: string

fun getAll_loop :: "list_key list \<Rightarrow> all_item list \<Rightarrow> store \<Rightarrow> all_item list promise" where
  "getAll_loop [] result s = (Inr result, s)"
| "getAll_loop (key # rest) result s =
     (case kv_getWithMetadata (key_name key) s of
        (Inl e, s1) \<Rightarrow> (Inl e, s1)
      | (Inr got, s1) \<Rightarrow>
          (let vt = (case snd got of
                       None \<Rightarrow> VALUE_TYPE_TEXT
                     | Some md \<Rightarrow>
                         (case map_of md ''valueType'' of
                            None \<Rightarrow> VALUE_TYPE_TEXT
                          | Some t \<Rightarrow> t))
           in getAll_loop rest
                (result @
                   [\<lparr>all_key = key_name key,
                     all_val = (if vt = VALUE_TYPE_TEXT then fst got
                                else Some (Text NOT_VIEWABLE)),
                     all_valueType = vt\<rparr>])
                s1))"

definition getAll :: "store \<Rightarrow> all_item list promise" where
  "getAll s = await (kv_list s) (\<lambda>keys s1. getAll_loop keys [] s1)"

section \<open>The route table (src/router/route.ts)\<close>

text \<open>
  A guard receives the \<^verbatim>\<open>check\<close> object of the router and answers with one of the
  four results of \<^verbatim>\<open>CheckEnter\<close>. The router that builds \<^verbatim>\<open>check\<close> is not among the
  sources, so what a guard reads from it is a parameter: the answer of
  \<^verbatim>\<open>check.method(m)\<close> for each method name, the answer of \<^verbatim>\<open>check.token()\<close>, the
  request's \<^verbatim>\<open>kv\<close> header and the environment's \<^verbatim>\<open>KV_KEYS\<close>. \<open>falsy\<close> is the negation
  \<^verbatim>\<open>!x\<close> of a string that may be null: true for null and for the empty string.
\<close>

record check =
  check_method :: "string \<Rightarrow> bool"
  check_token :: bool
  header_kv :: "string option"
  env_KV_KEYS :: "string option"

datatype enter = RejectMethodEnter | RejectTokenEnter | RejectNotKVEnter | AcceptEnter

definition falsy :: "string option \<Rightarrow> bool" where
  "falsy x = (case x of None \<Rightarrow> True | Some v \<Rightarrow> v = [])"

definition beforeEnter_api_verifyToken :: "check \<Rightarrow> enter" where
  "beforeEnter_api_verifyToken c =
     (if \<not> check_method c ''POST'' then RejectMethodEnter else AcceptEnter)"

definition beforeEnter_api_getKvList :: "check \<Rightarrow> enter" where
  "beforeEnter_api_getKvList c =
     (if \<not> check_method c ''GET'' then RejectMethodEnter
      else if \<not> check_token c then RejectTokenEnter
      else if falsy (env_KV_KEYS c) then RejectNotKVEnter
      else AcceptEnter)"

definition beforeEnter_api_get :: "check \<Rightarrow> enter" where
  "beforeEnter_api_get c =
     (if \<not> check_method c ''GET'' then RejectMethodEnter
      else if \<not> check_token c then RejectTokenEnter
      else if falsy (header_kv c) then RejectNotKVEnter
      else AcceptEnter)"

definition beforeEnter_api_update :: "check \<Rightarrow> enter" where
  "beforeEnter_api_update c =
     (if \<not> check_method c ''POST'' then RejectMethodEnter
      else if \<not> check_token c then RejectTokenEnter
      else if falsy (header_kv c) then RejectNotKVEnter
      else AcceptEnter)"

definition beforeEnter_api_add :: "check \<Rightarrow> enter" where
  "beforeEnter_api_add c =
     (if \<not> check_method c ''POST'' then RejectMethodEnter
      else if \<not> check_token c then RejectTokenEnter
      else if falsy (header_kv c) then RejectNotKVEnter
      else AcceptEnter)"

definition beforeEnter_api_delete :: "check \<Rightarrow> enter" where
  "beforeEnter_api_delete c =
     (if \<not> check_method c ''POST'' then RejectMethodEnter
      else if \<not> check_token c then RejectTokenEnter
      else if falsy (header_kv c) then RejectNotKVEnter
      else AcceptEnter)"

definition beforeEnter_api_getList :: "check \<Rightarrow> enter" where
  "beforeEnter_api_getList c =
     (if \<not> check_method c ''GET'' then RejectMethodEnter
      else if \<not> check_token c then RejectTokenEnter
      else if falsy (header_kv c) then RejectNotKVEnter
      else AcceptEnter)"

definition beforeEnter_api_getKvKeys :: "check \<Rightarrow> enter" where
  "beforeEnter_api_getKvKeys c =
     (if \<not> check_method c ''GET'' then RejectMethodEnter
      else if \<not> check_token c then RejectTokenEnter
      else if falsy (header_kv c) then RejectNotKVEnter
      else AcceptEnter)"

definition beforeEnter_api_upload :: "check \<Rightarrow> enter" where
  "beforeEnter_api_upload c =
     (if \<not> check_method c ''POST'' then RejectMethodEnter
      else if \<not> check_token c then RejectTokenEnter
      else if falsy (header_kv c) then RejectNotKVEnter
      else AcceptEnter)"

definition beforeEnter_api_download :: "check \<Rightarrow> enter" where
  "beforeEnter_api_download c =
     (if \<not> check_method c ''GET'' then RejectMethodEnter
      else if \<not> check_token c then RejectTokenEnter
      else if falsy (header_kv c) then RejectNotKVEnter
      else AcceptEnter)"

record route =
  path :: string
  beforeEnter :: "(check \<Rightarrow> enter) option"

definition routes :: "route list" where
  "routes =
     [\<lparr>path = ''/'', beforeEnter = None\<rparr>,
      \<lparr>path = ''/api/verifyToken'', beforeEnter = Some beforeEnter_api_verifyToken\<rparr>,
      \<lparr>path = ''/api/getKvList'', beforeEnter = Some beforeEnter_api_getKvList\<rparr>,
      \<lparr>path = ''/api/get'', beforeEnter = Some beforeEnter_api_get\<rparr>,
      \<lparr>path = ''/api/update'', beforeEnter = Some beforeEnter_api_update\<rparr>,
      \<lparr>path = ''/api/add'', beforeEnter = Some beforeEnter_api_add\<rparr>,
      \<lparr>path = ''/api/delete'', beforeEnter = Some beforeEnter_api_delete\<rparr>,
      \<lparr>path = ''/api/getList'', beforeEnter = Some beforeEnter_api_getList\<rparr>,
      \<lparr>path = ''/api/getKvKeys'', beforeEnter = Some beforeEnter_api_getKvKeys\<rparr>,
      \<lparr>path = ''/api/upload'', beforeEnter = Some beforeEnter_api_upload\<rparr>,
      \<lparr>path = ''/api/download'', beforeEnter = Some beforeEnter_api_download\<rparr>]"

text \<open>
  The check that the claim on guards describes: method, then token, then the \<^verbatim>\<open>kv\<close>
  header, the first failing check deciding the answer.
\<close>

definition three_checks :: "string \<Rightarrow> check \<Rightarrow> enter" where
  "three_checks m c =
     (if \<not> check_method c m then RejectMethodEnter
      else if \<not> check_token c then RejectTokenEnter
      else if falsy (header_kv c) then RejectNotKVEnter
      else AcceptEnter)"

section \<open>The handlers that read an entry\<close>

text \<open>
  A response is the \<^verbatim>\<open>ServiceResponse\<close> method that built it, with its arguments.
  A handler receives what it reads from the request (a query parameter or the parsed
  body) and the namespace that \<^verbatim>\<open>env[request.headers.get('kv')!]\<close> selects; \<open>None\<close>
  is a header that names no binding, for which the controller's constructor throws
  \<^verbatim>\<open>KV Namespace not found\<close>. Every handler body stands in a \<^verbatim>\<open>try\<close> whose catch clause
  answers \<^verbatim>\<open>ServiceResponse.onError(error.message)\<close>.
\<close>

datatype response =
    OnBadRequest string
  | OnUnauthorized string
  | OnNotFound string
  | OnError string
  | OnSuccessJson string "get_result option"
  | OnSuccessStream get_result

text \<open>
  Modelled from the spec: the status codes of \<^verbatim>\<open>ServiceResponse\<close> (src/service is not
  among the sources). The spec gives the "HTTP status mapping (400/401/404/500)".
\<close>

fun status :: "response \<Rightarrow> nat" where
  "status (OnBadRequest _) = 400"
| "status (OnUnauthorized _) = 401"
| "status (OnNotFound _) = 404"
| "status (OnError _) = 500"
| "status (OnSuccessJson _ _) = 200"
| "status (OnSuccessStream _) = 200"

definition excute_get :: "string option \<Rightarrow> store option \<Rightarrow> response \<times> store option" where
  "excute_get key ns =
     (case key of
        None \<Rightarrow> (OnBadRequest ''KEY Not Found'', ns)
      | Some k \<Rightarrow>
          if k = [] then (OnBadRequest ''KEY Not Found'', ns)
          else
            (case ns of
               None \<Rightarrow> (OnError ''KV Namespace not found'', ns)
             | Some s \<Rightarrow>
                 (case getItem k [] s of
                    (Inl e, s1) \<Rightarrow> (OnError (err_message e), Some s1)
                  | (Inr None, s1) \<Rightarrow> (OnNotFound ''Not Found'', Some s1)
                  | (Inr (Some v), s1) \<Rightarrow> (OnSuccessJson k (Some v), Some s1))))"

definition excute_download :: "string option \<Rightarrow> store option \<Rightarrow> response \<times> store option" where
  "excute_download fileName ns =
     (case fileName of
        None \<Rightarrow> (OnBadRequest ''File name is required'', ns)
      | Some f \<Rightarrow>
          if f = [] then (OnBadRequest ''File name is required'', ns)
          else
            (case ns of
               None \<Rightarrow> (OnError ''KV Namespace not found'', ns)
             | Some s \<Rightarrow>
                 (case getItem f [''arrayBuffer''] s of
                    (Inl e, s1) \<Rightarrow> (OnError (err_message e), Some s1)
                  | (Inr None, s1) \<Rightarrow> (OnNotFound ''File not found'', Some s1)
                  | (Inr (Some v), s1) \<Rightarrow> (OnSuccessStream v, Some s1))))"

text \<open>
  \<^verbatim>\<open>/api/add\<close> and \<^verbatim>\<open>/api/update\<close> take the key and the value of the parsed body
  (\<^verbatim>\<open>getBody\<close> is not among the sources; a body that does not parse is not modelled),
  call \<open>addItem\<close> or \<open>updateItem\<close> without options and answer with what \<open>getItem\<close>
  reads back.
\<close>

record body =
  body_key :: "string option"
  body_val :: "string option"

definition read_back :: "string \<Rightarrow> unit promise \<Rightarrow> response \<times> store option" where
  "read_back k r =
     (case r of
        (Inl e, s1) \<Rightarrow> (OnError (err_message e), Some s1)
      | (Inr _, s1) \<Rightarrow>
          (case getItem k [] s1 of
             (Inl e, s2) \<Rightarrow> (OnError (err_message e), Some s2)
           | (Inr updatedValue, s2) \<Rightarrow> (OnSuccessJson k updatedValue, Some s2)))"

definition excute_add :: "body \<Rightarrow> store option \<Rightarrow> response \<times> store option" where
  "excute_add b ns =
     (case (body_key b, body_val b) of
        (Some k, Some v) \<Rightarrow>
          if k = [] \<or> v = [] then (OnBadRequest ''KEY or VALUE Not Found'', ns)
          else
            (case ns of
               None \<Rightarrow> (OnError ''KV Namespace not found'', ns)
             | Some s \<Rightarrow> read_back k (addItem k (Text v) None s))
      | _ \<Rightarrow> (OnBadRequest ''KEY or VALUE Not Found'', ns))"

definition excute_update :: "body \<Rightarrow> store option \<Rightarrow> response \<times> store option" where
  "excute_update b ns =
     (case (body_key b, body_val b) of
        (Some k, Some v) \<Rightarrow>
          if k = [] \<or> v = [] then (OnBadRequest ''KEY or VALUE Not Found'', ns)
          else
            (case ns of
               None \<Rightarrow> (OnError ''KV Namespace not found'', ns)
             | Some s \<Rightarrow> read_back k (updateItem k (Text v) None s))
      | _ \<Rightarrow> (OnBadRequest ''KEY or VALUE Not Found'', ns))"

section \<open>Inputs used in the examples\<close>

definition plain_entry :: "string \<Rightarrow> metadata option \<Rightarrow> kv_entry" where
  "plain_entry v md =
     \<lparr>entry_val = Text v, entry_metadata = md,
      entry_expiration = None, entry_expirationTtl = None\<rparr>"

definition store_of :: "(string \<times> kv_entry) list \<Rightarrow> js_error option list \<Rightarrow> store" where
  "store_of es fs = \<lparr>entries = es, faults = fs, list_limit = 1000, calls = []\<rparr>"

text \<open>
  \<open>check_of m t h k\<close> is the \<^verbatim>\<open>check\<close> object of a request with the method \<open>m\<close>, whose token
  check answers \<open>t\<close>, whose \<^verbatim>\<open>kv\<close> header is \<open>h\<close>, in an environment whose \<^verbatim>\<open>KV_KEYS\<close> is \<open>k\<close>.
\<close>

definition check_of :: "string \<Rightarrow> bool \<Rightarrow> string option \<Rightarrow> string option \<Rightarrow> check" where
  "check_of m t h k =
     \<lparr>check_method = (\<lambda>x. x = m), check_token = t, header_kv = h, env_KV_KEYS = k\<rparr>"

section \<open>Notions used in the statements\<close>

text \<open>
  \<open>listed s\<close> are the names of the keys that a list call on \<open>s\<close> returns.
  \<open>fails_at n e s\<close>: of the store calls still to come, the first \<open>n\<close> succeed and the
  next one throws \<open>e\<close>. \<open>no_expiration options\<close>: the caller passes neither
  \<^verbatim>\<open>expiration\<close> nor \<^verbatim>\<open>expirationTtl\<close> (no options at all, or options without the two).
\<close>

definition listed :: "store \<Rightarrow> string list" where
  "listed s = map fst (take (list_limit s) (entries s))"

definition fails_at :: "nat \<Rightarrow> js_error \<Rightarrow> store \<Rightarrow> bool" where
  "fails_at n e s =
     (n < length (faults s) \<and> take n (faults s) = replicate n None \<and> faults s ! n = Some e)"

definition no_expiration :: "put_options option \<Rightarrow> bool" where
  "no_expiration options =
     (case options of
        None \<Rightarrow> True
      | Some opts \<Rightarrow> expiration opts = None \<and> expirationTtl opts = None)"

section \<open>Facts about the store and the controller\<close>

lemma kv_list_frame:
  "kv_list s = (r, s1) \<Longrightarrow>
     entries s1 = entries s \<and> calls s1 = calls s @ [CallList] \<and>
     faults s1 = tl (faults s) \<and> list_limit s1 = list_limit s"
  by (auto simp: kv_list_def store_call_def split: option.splits list.splits)

lemma kv_put_frame:
  "kv_put key v opts s = (r, s1) \<Longrightarrow>
     calls s1 = calls s @ [CallPut key v opts] \<and>
     faults s1 = tl (faults s) \<and> list_limit s1 = list_limit s"
  by (auto simp: kv_put_def store_call_def split: option.splits list.splits)

lemma kv_put_Inl:
  "kv_put key v opts s = (Inl e, s1) \<Longrightarrow> entries s1 = entries s"
  by (auto simp: kv_put_def store_call_def split: option.splits list.splits)

lemma kv_put_Inr:
  "kv_put key v opts s = (Inr u, s1) \<Longrightarrow>
     entries s1 =
       AList.update key
         \<lparr>entry_val = v, entry_metadata = metadata opts,
          entry_expiration = expiration opts,
          entry_expirationTtl = expirationTtl opts\<rparr> (entries s)"
  by (auto simp: kv_put_def store_call_def split: option.splits list.splits)

lemma hasKey_unfold:
  "hasKey key s =
     (case kv_list s of
        (Inl e, s1) \<Rightarrow> (Inl e, s1)
      | (Inr keys, s1) \<Rightarrow> (Inr (key \<in> key_name ` set keys), s1))"
  by (simp add: hasKey_def getKeys_def await_def split: prod.splits sum.splits)

lemma toString_new_Error: "toString (new_Error m) = (if m = [] then ''Error'' else ''Error: '' @ m)"
  by (simp add: toString_def new_Error_def)

lemma kv_getWithMetadata_Inr:
  "kv_getWithMetadata key s = (Inr got, s1) \<Longrightarrow>
     entries s1 = entries s \<and>
     fst got = map_option entry_val (map_of (entries s) key) \<and>
     snd got = (case map_of (entries s) key of None \<Rightarrow> None | Some en \<Rightarrow> entry_metadata en)"
  by (auto simp: kv_getWithMetadata_def store_call_def split: option.splits list.splits)

lemma kv_get_frame:
  "kv_get key gopts s = (r, s1) \<Longrightarrow> entries s1 = entries s"
  by (auto simp: kv_get_def store_call_def split: option.splits list.splits)

lemma kv_getWithMetadata_frame:
  "kv_getWithMetadata key s = (r, s1) \<Longrightarrow> entries s1 = entries s"
  by (auto simp: kv_getWithMetadata_def store_call_def split: option.splits list.splits)

lemma getItem_entries: "entries (snd (getItem key gopts s)) = entries s"
proof -
  obtain r s1 where a: "kv_get key gopts s = (r, s1)" by (cases "kv_get key gopts s")
  obtain r2 s2 where b: "kv_getWithMetadata key s1 = (r2, s2)"
    by (cases "kv_getWithMetadata key s1")
  have "entries s1 = entries s" "entries s2 = entries s1"
    using kv_get_frame [OF a] kv_getWithMetadata_frame [OF b] by simp_all
  then show ?thesis
    by (simp add: getItem_def a b await_def catch_rethrow_def split: sum.splits option.splits)
qed

lemma updateItem_Inr:
  assumes "updateItem key v options s = (Inr u, s')"
  shows "entries s' =
           AList.update key
             \<lparr>entry_val = v,
              entry_metadata =
                (case map_of (entries s) key of None \<Rightarrow> None | Some en \<Rightarrow> entry_metadata en),
              entry_expiration =
                (case options of None \<Rightarrow> None | Some opts \<Rightarrow> expiration opts),
              entry_expirationTtl =
                (case options of None \<Rightarrow> None | Some opts \<Rightarrow> expirationTtl opts)\<rparr>
             (entries s)"
proof -
  obtain r s1 where a: "kv_getWithMetadata key s = (r, s1)"
    by (cases "kv_getWithMetadata key s")
  from assms a obtain got where r: "r = Inr got"
    by (cases r) (simp_all add: updateItem_def await_def catch_rethrow_def)
  from assms a r have p: "kv_put key v (updateItem_options options (snd got)) s1 = (Inr u, s')"
    by (simp add: updateItem_def await_def catch_rethrow_def split: prod.splits sum.splits)
  show ?thesis
    using kv_put_Inr [OF p] kv_getWithMetadata_Inr [OF a [unfolded r]]
    by (simp add: updateItem_options_def)
qed

lemma addItem_Inr:
  assumes "addItem key v options s = (Inr u, s')"
  shows "entries s' =
           AList.update key
             \<lparr>entry_val = v, entry_metadata = metadata (addItem_options options),
              entry_expiration = expiration (addItem_options options),
              entry_expirationTtl = expirationTtl (addItem_options options)\<rparr>
             (entries s) \<and>
         key \<notin> set (listed s)"
proof -
  obtain r s1 where a: "kv_list s = (r, s1)" by (cases "kv_list s")
  from assms a obtain keys where r: "r = Inr keys"
    by (cases r) (simp_all add: addItem_def addItem_try_def hasKey_unfold await_def catch_rethrow_def)
  have k: "keys = map (ListKey \<circ> fst) (take (list_limit s) (entries s))"
    using a r by (auto simp: kv_list_def store_call_def split: option.splits list.splits)
  from assms a r have nk: "key \<notin> key_name ` set keys"
    by (auto simp: addItem_def addItem_try_def hasKey_unfold await_def catch_rethrow_def
        split: if_splits)
  from assms a r nk have p: "kv_put key v (addItem_options options) s1 = (Inr u, s')"
    by (simp add: addItem_def addItem_try_def hasKey_unfold await_def catch_rethrow_def
        split: prod.splits sum.splits)
  have "key \<notin> set (listed s)"
    using nk k by (auto simp: listed_def image_iff)
  then show ?thesis
    using kv_put_Inr [OF p] kv_list_frame [OF a] by simp
qed

lemma read_back_entries:
  "\<exists>s2. snd (read_back k (Inr u, s1)) = Some s2 \<and> entries s2 = entries s1"
proof -
  obtain r s2 where g: "getItem k [] s1 = (r, s2)" by (cases "getItem k [] s1")
  have "entries s2 = entries s1" using getItem_entries [of k "[]" s1] g by simp
  then show ?thesis
    by (cases r) (simp_all add: read_back_def g)
qed

lemmas run_defs =
  store_of_def plain_entry_def store_call_def kv_get_def kv_getWithMetadata_def kv_put_def
  kv_delete_def kv_list_def await_def catch_rethrow_def getKeys_def hasKey_def
  addItem_options_def addItem_try_def addItem_def addItems_def updateItem_options_def
  updateItem_def getItem_def deleteItem_def deleteItems_def clear_def getAll_def
  new_Error_def toString_def null_read_TypeError_def

subsection \<open>The call that fails\<close>

lemma fails_at_0: "fails_at 0 e s \<longleftrightarrow> (\<exists>fs. faults s = Some e # fs)"
  by (cases "faults s") (auto simp: fails_at_def)

lemma fails_at_Suc:
  "fails_at (Suc n) e s \<longleftrightarrow>
     (\<exists>fs. faults s = None # fs \<and> fails_at n e (s\<lparr>faults := fs\<rparr>))"
  by (cases "faults s") (auto simp: fails_at_def)

lemma fails_at_entries [simp]: "fails_at n e (s\<lparr>entries := es\<rparr>) = fails_at n e s"
  by (simp add: fails_at_def)

lemma fails_at_calls [simp]: "fails_at n e (s\<lparr>calls := cs\<rparr>) = fails_at n e s"
  by (simp add: fails_at_def)

lemma kv_get_fails_0: "fails_at 0 e s \<Longrightarrow> fst (kv_get key gopts s) = Inl e"
  by (auto simp: fails_at_0 kv_get_def store_call_def)

lemma kv_get_fails_Suc:
  "fails_at (Suc n) e s \<Longrightarrow>
     \<exists>a s1. kv_get key gopts s = (Inr a, s1) \<and> fails_at n e s1"
  by (auto simp: fails_at_Suc kv_get_def store_call_def)

lemma kv_getWithMetadata_fails_0:
  "fails_at 0 e s \<Longrightarrow> fst (kv_getWithMetadata key s) = Inl e"
  by (auto simp: fails_at_0 kv_getWithMetadata_def store_call_def)

lemma kv_getWithMetadata_fails_Suc:
  "fails_at (Suc n) e s \<Longrightarrow>
     \<exists>a s1. kv_getWithMetadata key s = (Inr a, s1) \<and> fails_at n e s1"
  by (auto simp: fails_at_Suc kv_getWithMetadata_def store_call_def split: option.splits)

lemma kv_put_fails_0: "fails_at 0 e s \<Longrightarrow> fst (kv_put key v opts s) = Inl e"
  by (auto simp: fails_at_0 kv_put_def store_call_def)

lemma kv_delete_fails_0: "fails_at 0 e s \<Longrightarrow> fst (kv_delete key s) = Inl e"
  by (auto simp: fails_at_0 kv_delete_def store_call_def)

lemma kv_delete_fails_Suc:
  "fails_at (Suc n) e s \<Longrightarrow>
     \<exists>s1. kv_delete key s = (Inr (), s1) \<and> fails_at n e s1"
  by (auto simp: fails_at_Suc kv_delete_def store_call_def)

lemma kv_list_fails_0: "fails_at 0 e s \<Longrightarrow> fst (kv_list s) = Inl e"
  by (auto simp: fails_at_0 kv_list_def store_call_def)

lemma kv_list_fails_Suc:
  "fails_at (Suc n) e s \<Longrightarrow>
     \<exists>s1. kv_list s = (Inr (map ListKey (listed s)), s1) \<and> fails_at n e s1"
  by (auto simp: fails_at_Suc kv_list_def store_call_def listed_def)

lemma fst_catch_rethrow_Inl:
  "fst r = Inl e \<Longrightarrow> fst (catch_rethrow r) = Inl (new_Error (toString e))"
  by (cases r) (simp add: catch_rethrow_def)

lemma fst_await_Inl: "fst r = Inl e \<Longrightarrow> fst (await r f) = Inl e"
  by (cases r) (simp add: await_def)

lemma await_Inr: "r = (Inr a, s1) \<Longrightarrow> await r f = f a s1"
  by (simp add: await_def)

lemma getItem_rethrows:
  assumes "fails_at n e s" and "n < 2"
  shows "fst (getItem key gopts s) = Inl (new_Error (toString e))"
proof (cases n)
  case 0
  with assms show ?thesis
    by (simp add: getItem_def fst_catch_rethrow_Inl fst_await_Inl kv_get_fails_0)
next
  case (Suc m)
  with assms have m: "m = 0" by simp
  from assms Suc m obtain a s1 where g: "kv_get key gopts s = (Inr a, s1)"
    and f: "fails_at 0 e s1"
    using kv_get_fails_Suc [of 0 e s key gopts] by auto
  show ?thesis
    by (simp add: getItem_def g await_Inr fst_catch_rethrow_Inl fst_await_Inl
        kv_getWithMetadata_fails_0 [OF f])
qed

lemma updateItem_rethrows:
  assumes "fails_at n e s" and "n < 2"
  shows "fst (updateItem key v options s) = Inl (new_Error (toString e))"
proof (cases n)
  case 0
  with assms show ?thesis
    by (simp add: updateItem_def fst_catch_rethrow_Inl fst_await_Inl kv_getWithMetadata_fails_0)
next
  case (Suc m)
  with assms have m: "m = 0" by simp
  from assms Suc m obtain a s1 where g: "kv_getWithMetadata key s = (Inr a, s1)"
    and f: "fails_at 0 e s1"
    using kv_getWithMetadata_fails_Suc [of 0 e s key] by auto
  show ?thesis
    by (simp add: updateItem_def g await_Inr fst_catch_rethrow_Inl kv_put_fails_0 [OF f])
qed

lemma addItem_rethrows:
  assumes "fails_at n e s" and "n = 0 \<or> n = 1 \<and> key \<notin> set (listed s)"
  shows "fst (addItem key v options s) = Inl (new_Error (toString e))"
proof (cases n)
  case 0
  with assms show ?thesis
    by (simp add: addItem_def addItem_try_def hasKey_def getKeys_def fst_catch_rethrow_Inl
        fst_await_Inl kv_list_fails_0)
next
  case (Suc m)
  with assms have m: "m = 0" and nk: "key \<notin> set (listed s)" by simp_all
  from assms Suc m obtain s1 where g: "kv_list s = (Inr (map ListKey (listed s)), s1)"
    and f: "fails_at 0 e s1"
    using kv_list_fails_Suc [of 0 e s] by auto
  have "key \<notin> key_name ` set (map ListKey (listed s))"
    using nk by (auto simp: image_iff)
  then show ?thesis
    by (simp add: addItem_def addItem_try_def hasKey_unfold g await_def fst_catch_rethrow_Inl
        kv_put_fails_0 [OF f] image_iff)
qed

lemma deleteItem_rethrows:
  "fails_at 0 e s \<Longrightarrow> fst (deleteItem key s) = Inl (new_Error (toString e))"
  by (simp add: deleteItem_def fst_catch_rethrow_Inl kv_delete_fails_0)

lemma delete_each_fails:
  "fails_at n e s \<Longrightarrow> n < length keys \<Longrightarrow> promise_all (fst (delete_each keys s)) = Inl e"
proof (induction keys arbitrary: n s)
  case Nil
  then show ?case by simp
next
  case (Cons k ks)
  show ?case
  proof (cases n)
    case 0
    with Cons.prems have "fst (kv_delete (key_name k) s) = Inl e"
      by (simp add: kv_delete_fails_0)
    then show ?thesis
      by (cases "kv_delete (key_name k) s") (simp split: prod.splits)
  next
    case (Suc m)
    with Cons.prems obtain s1 where d: "kv_delete (key_name k) s = (Inr (), s1)"
      and f: "fails_at m e s1"
      using kv_delete_fails_Suc [of m e s "key_name k"] by auto
    from Cons.prems Suc have "m < length ks" by simp
    from Cons.IH [OF f this] show ?thesis
      by (auto simp: d split: prod.splits)
  qed
qed

lemma clear_rethrows:
  assumes "fails_at n e s" and "n \<le> length (listed s)"
  shows "fst (clear s) = Inl (new_Error (toString e))"
proof (cases n)
  case 0
  with assms show ?thesis
    by (simp add: clear_def fst_catch_rethrow_Inl fst_await_Inl kv_list_fails_0)
next
  case (Suc m)
  with assms obtain s1 where g: "kv_list s = (Inr (map ListKey (listed s)), s1)"
    and f: "fails_at m e s1"
    using kv_list_fails_Suc [of m e s] by auto
  from assms Suc have "m < length (map ListKey (listed s))" by simp
  from delete_each_fails [OF f this] show ?thesis
    by (auto simp: clear_def g await_def catch_rethrow_def split: prod.splits)
qed

lemma deleteItems_loop_fails:
  "fails_at n e s \<Longrightarrow> n < length keys \<Longrightarrow>
     fst (deleteItems_loop keys s) = Inl (new_Error (toString e))"
proof (induction keys arbitrary: n s)
  case Nil
  then show ?case by simp
next
  case (Cons k ks)
  show ?case
  proof (cases n)
    case 0
    with Cons.prems have "fst (deleteItem k s) = Inl (new_Error (toString e))"
      by (simp add: deleteItem_rethrows)
    then show ?thesis
      by (cases "deleteItem k s") simp
  next
    case (Suc m)
    with Cons.prems obtain s1 where d: "kv_delete k s = (Inr (), s1)"
      and f: "fails_at m e s1"
      using kv_delete_fails_Suc [of m e s k] by auto
    from Cons.prems Suc have "m < length ks" by simp
    from Cons.IH [OF f this] show ?thesis
      by (simp add: deleteItem_def d catch_rethrow_def)
  qed
qed

lemma deleteItems_rethrows:
  assumes "fails_at n e s" and "n < length keys"
  shows "fst (deleteItems keys s) = Inl (new_Error (toString (new_Error (toString e))))"
proof -
  from assms have "keys \<noteq> []" by auto
  then show ?thesis
    by (simp add: deleteItems_def fst_catch_rethrow_Inl deleteItems_loop_fails [OF assms])
qed

lemma addItems_rethrows:
  assumes "fails_at n e s" and "items \<noteq> []"
    and "n = 0 \<or> n = 1 \<and> item_key (hd items) \<notin> set (listed s)"
  shows "fst (addItems items s) = Inl (new_Error (toString (new_Error (toString e))))"
proof -
  from assms(2) obtain it rest where i: "items = it # rest" by (cases items) auto
  have "fst (addItem (item_key it) (item_val it) (item_options it) s) =
      Inl (new_Error (toString e))"
    using addItem_rethrows [OF assms(1)] assms(3) i by simp
  then have "fst (addItems_loop items s) = Inl (new_Error (toString e))"
    by (cases "addItem (item_key it) (item_val it) (item_options it) s") (simp add: i)
  then show ?thesis
    using assms(2) by (simp add: addItems_def fst_catch_rethrow_Inl)
qed

lemma no_catch_passes_on:
  "fails_at 0 e s \<Longrightarrow> fst (getKeys s) = Inl e \<and> fst (hasKey key s) = Inl e \<and> fst (getAll s) = Inl e"
  by (simp add: getKeys_def hasKey_def getAll_def fst_await_Inl kv_list_fails_0)

lemma addItem_after_list:
  assumes "kv_list s = (Inr keys, s1)"
  shows "(key \<in> key_name ` set keys \<longrightarrow>
            addItem_try key v options s =
              (Inl (new_Error (''Key '' @ key @ '' already exists'')), s1) \<and>
            addItem key v options s =
              (Inl (new_Error (''Error: Key '' @ key @ '' already exists'')), s1) \<and>
            entries s1 = entries s \<and> calls s1 = calls s @ [CallList]) \<and>
         (key \<notin> key_name ` set keys \<longrightarrow>
            addItem key v options s =
              catch_rethrow (kv_put key v (addItem_options options) s1) \<and>
            calls (snd (addItem key v options s)) =
              calls s @ [CallList, CallPut key v (addItem_options options)])"
proof -
  have frame: "entries s1 = entries s" "calls s1 = calls s @ [CallList]"
    using kv_list_frame [OF assms] by simp_all
  have hk: "hasKey key s = (Inr (key \<in> key_name ` set keys), s1)"
    by (simp add: hasKey_unfold assms)
  show ?thesis
  proof (cases "key \<in> key_name ` set keys")
    case True
    then have "addItem_try key v options s =
        (Inl (new_Error (''Key '' @ key @ '' already exists'')), s1)"
      by (simp add: addItem_try_def hk await_def)
    then show ?thesis
      using True frame by (simp add: addItem_def catch_rethrow_def toString_new_Error)
  next
    case False
    then have t: "addItem key v options s =
        catch_rethrow (kv_put key v (addItem_options options) s1)"
      by (simp add: addItem_def addItem_try_def hk await_def)
    obtain r s2 where p: "kv_put key v (addItem_options options) s1 = (r, s2)"
      by (cases "kv_put key v (addItem_options options) s1")
    have "calls s2 = calls s @ [CallList, CallPut key v (addItem_options options)]"
      using kv_put_frame [OF p] frame by simp
    then have "calls (snd (addItem key v options s)) =
        calls s @ [CallList, CallPut key v (addItem_options options)]"
      by (simp add: t p catch_rethrow_def split: sum.splits)
    with t False show ?thesis by simp
  qed
qed

subsection \<open>Batches\<close>

lemma addItem_Inl:
  assumes "addItem key v options s = (Inl e, s')"
  shows "entries s' = entries s"
proof -
  obtain r s1 where a: "kv_list s = (r, s1)" by (cases "kv_list s")
  have f: "entries s1 = entries s" using kv_list_frame [OF a] by simp
  show ?thesis
  proof (cases r)
    case (Inl e0)
    with assms a f show ?thesis
      by (simp add: addItem_def addItem_try_def hasKey_unfold await_def catch_rethrow_def)
  next
    case (Inr keys)
    show ?thesis
    proof (cases "key \<in> key_name ` set keys")
      case True
      with assms a f Inr show ?thesis
        by (simp add: addItem_def addItem_try_def hasKey_unfold await_def catch_rethrow_def)
    next
      case False
      obtain r2 s2 where p: "kv_put key v (addItem_options options) s1 = (r2, s2)"
        by (cases "kv_put key v (addItem_options options) s1")
      from assms a Inr False p obtain e2 where "r2 = Inl e2" and "s2 = s'"
        by (cases r2)
          (simp_all add: addItem_def addItem_try_def hasKey_unfold await_def catch_rethrow_def)
      with kv_put_Inl [of key v "addItem_options options" s1 e2 s2] p f show ?thesis
        by simp
    qed
  qed
qed

lemma addItem_Inr_dom:
  assumes "addItem key v options s = (Inr u, s')"
  shows "map_of (entries s') key \<noteq> None"
    and "map_of (entries s) k \<noteq> None \<Longrightarrow> map_of (entries s') k \<noteq> None"
  using addItem_Inr [OF assms] by (simp_all add: update_conv')

lemma addItems_loop_stored:
  "addItems_loop pre s = (Inr u, s1) \<Longrightarrow>
     (\<forall>p \<in> set pre. map_of (entries s1) (item_key p) \<noteq> None) \<and>
     (\<forall>k. map_of (entries s) k \<noteq> None \<longrightarrow> map_of (entries s1) k \<noteq> None)"
proof (induction pre arbitrary: s)
  case Nil
  then show ?case by simp
next
  case (Cons it pre)
  obtain r s0 where a: "addItem (item_key it) (item_val it) (item_options it) s = (r, s0)"
    by (cases "addItem (item_key it) (item_val it) (item_options it) s")
  with Cons.prems obtain u0 where r: "r = Inr u0" by (cases r) simp_all
  from Cons.prems a r have l: "addItems_loop pre s0 = (Inr u, s1)" by simp
  note ih = Cons.IH [OF l]
  note d = addItem_Inr_dom [OF a [unfolded r]]
  show ?case using ih d by auto
qed

lemma addItems_loop_append:
  "addItems_loop pre s = (Inr u, s1) \<Longrightarrow>
     addItems_loop (pre @ rest) s = addItems_loop rest s1"
proof (induction pre arbitrary: s)
  case Nil
  then show ?case by simp
next
  case (Cons it pre)
  then show ?case
    by (cases "addItem (item_key it) (item_val it) (item_options it) s")
      (auto split: sum.splits)
qed

lemma deleteItem_Inl: "deleteItem k s = (Inl e, s') \<Longrightarrow> entries s' = entries s"
  by (auto simp: deleteItem_def kv_delete_def store_call_def catch_rethrow_def
      split: option.splits list.splits)

lemma deleteItem_Inr:
  "deleteItem k s = (Inr u, s') \<Longrightarrow> entries s' = AList.delete k (entries s)"
  by (auto simp: deleteItem_def kv_delete_def store_call_def catch_rethrow_def
      split: option.splits list.splits)

lemma deleteItems_loop_gone:
  "deleteItems_loop pre s = (Inr u, s1) \<Longrightarrow>
     (\<forall>p \<in> set pre. map_of (entries s1) p = None) \<and>
     (\<forall>k. map_of (entries s) k = None \<longrightarrow> map_of (entries s1) k = None)"
proof (induction pre arbitrary: s)
  case Nil
  then show ?case by simp
next
  case (Cons k pre)
  obtain r s0 where a: "deleteItem k s = (r, s0)" by (cases "deleteItem k s")
  with Cons.prems obtain u0 where r: "r = Inr u0" by (cases r) simp_all
  from Cons.prems a r have l: "deleteItems_loop pre s0 = (Inr u, s1)" by simp
  note ih = Cons.IH [OF l]
  have d: "entries s0 = AList.delete k (entries s)"
    using deleteItem_Inr a r by simp
  show ?case using ih d by (auto simp: delete_conv')
qed

lemma deleteItems_loop_append:
  "deleteItems_loop pre s = (Inr u, s1) \<Longrightarrow>
     deleteItems_loop (pre @ rest) s = deleteItems_loop rest s1"
proof (induction pre arbitrary: s)
  case Nil
  then show ?case by simp
next
  case (Cons k pre)
  then show ?case
    by (cases "deleteItem k s") (auto split: sum.splits)
qed

subsection \<open>Deleting every listed key\<close>

lemma kv_delete_entries:
  "entries (snd (kv_delete k s)) =
     (if fst (kv_delete k s) = Inr () then AList.delete k (entries s) else entries s)"
  by (auto simp: kv_delete_def store_call_def split: option.splits list.splits)

lemma kv_delete_calls: "calls (snd (kv_delete k s)) = calls s @ [CallDelete k]"
  by (auto simp: kv_delete_def store_call_def split: option.splits list.splits)

lemma kv_delete_absent:
  "map_of (entries s) k = None \<Longrightarrow> map_of (entries (snd (kv_delete k' s))) k = None"
  by (simp add: kv_delete_entries delete_conv')

lemma delete_each_Cons:
  "delete_each (k # ks) s =
     (fst (kv_delete (key_name k) s) # fst (delete_each ks (snd (kv_delete (key_name k) s))),
      snd (delete_each ks (snd (kv_delete (key_name k) s))))"
  by (simp split: prod.splits)

lemma delete_each_calls:
  "calls (snd (delete_each keys s)) = calls s @ map (CallDelete \<circ> key_name) keys"
  by (induction keys arbitrary: s)
    (simp_all add: delete_each_Cons kv_delete_calls del: delete_each.simps(2))

lemma delete_each_absent:
  "map_of (entries s) k = None \<Longrightarrow> map_of (entries (snd (delete_each keys s))) k = None"
  by (induction keys arbitrary: s)
    (simp_all add: delete_each_Cons kv_delete_absent del: delete_each.simps(2))

lemma delete_each_length: "length (fst (delete_each keys s)) = length keys"
  by (induction keys arbitrary: s)
    (simp_all add: delete_each_Cons del: delete_each.simps(2))

lemma delete_each_done:
  "i < length keys \<Longrightarrow> fst (delete_each keys s) ! i = Inr () \<Longrightarrow>
     map_of (entries (snd (delete_each keys s))) (key_name (keys ! i)) = None"
proof (induction keys arbitrary: s i)
  case Nil
  then show ?case by simp
next
  case (Cons k ks)
  let ?s1 = "snd (kv_delete (key_name k) s)"
  show ?case
  proof (cases i)
    case 0
    with Cons.prems have "fst (kv_delete (key_name k) s) = Inr ()"
      by (simp add: delete_each_Cons del: delete_each.simps(2))
    then have "map_of (entries ?s1) (key_name k) = None"
      by (simp add: kv_delete_entries delete_conv')
    from delete_each_absent [OF this, of ks] show ?thesis
      using 0 by (simp add: delete_each_Cons del: delete_each.simps(2))
  next
    case (Suc j)
    with Cons.prems have "j < length ks" "fst (delete_each ks ?s1) ! j = Inr ()"
      by (simp_all add: delete_each_Cons del: delete_each.simps(2))
    from Cons.IH [OF this] show ?thesis
      using Suc by (simp add: delete_each_Cons del: delete_each.simps(2))
  qed
qed

lemma promise_all_Inr:
  "promise_all rs = Inr as \<Longrightarrow> i < length rs \<Longrightarrow> \<exists>a. rs ! i = Inr a"
proof (induction rs arbitrary: as i)
  case Nil
  then show ?case by simp
next
  case (Cons r rs)
  then show ?case
    by (cases r; cases i) (auto split: sum.splits)
qed

subsection \<open>Reading an entry\<close>

lemma getItem_cases:
  "(\<exists>e. fst (getItem key gopts s) = Inl e) \<or>
   (\<exists>r. fst (getItem key gopts s) = Inr (Some r))"
  by (auto simp: getItem_def await_def catch_rethrow_def split: prod.splits sum.splits option.splits)

lemma getItem_not_null: "fst (getItem key gopts s) \<noteq> Inr None"
  using getItem_cases [of key gopts s] by auto

lemma getItem_missing:
  assumes "map_of (entries s) key = None"
  shows "\<exists>e. fst (getItem key gopts s) = Inl e"
proof -
  obtain r s1 where a: "kv_get key gopts s = (r, s1)" by (cases "kv_get key gopts s")
  obtain r2 s2 where b: "kv_getWithMetadata key s1 = (r2, s2)"
    by (cases "kv_getWithMetadata key s1")
  have e1: "entries s1 = entries s" using kv_get_frame [OF a] .
  show ?thesis
  proof (cases r)
    case (Inl e)
    then show ?thesis by (simp add: getItem_def a await_def catch_rethrow_def)
  next
    case (Inr x)
    show ?thesis
    proof (cases r2)
      case (Inl e)
      then show ?thesis by (simp add: getItem_def a b Inr await_def catch_rethrow_def)
    next
      case (Inr got)
      with kv_getWithMetadata_Inr [of key s1 got s2] b e1 assms have "snd got = None"
        by simp
      with \<open>r = Inr x\<close> Inr show ?thesis
        by (simp add: getItem_def a b await_def catch_rethrow_def)
    qed
  qed
qed

lemma getItem_missing_no_fault:
  assumes "map_of (entries s) key = None" and "faults s = []"
  shows "fst (getItem key gopts s) =
    Inl (new_Error ''TypeError: Cannot read properties of null (reading 'valueType')'')"
  using assms
  by (simp add: getItem_def kv_get_def kv_getWithMetadata_def store_call_def await_def
      catch_rethrow_def null_read_TypeError_def toString_def)

lemma excute_get_status: "status (fst (excute_get q ns)) \<noteq> 404"
proof -
  have "status (fst (case getItem k [] s of
            (Inl e, s1) \<Rightarrow> (OnError (err_message e), Some s1)
          | (Inr None, s1) \<Rightarrow> (OnNotFound ''Not Found'', Some s1)
          | (Inr (Some v), s1) \<Rightarrow> (OnSuccessJson k (Some v), Some s1))) \<noteq> 404" for k s
    using getItem_cases [of k "[]" s]
    by (cases "getItem k [] s") auto
  then show ?thesis
    by (simp add: excute_get_def split: option.splits)
qed

lemma excute_download_status: "status (fst (excute_download q ns)) \<noteq> 404"
proof -
  have "status (fst (case getItem k [''arrayBuffer''] s of
            (Inl e, s1) \<Rightarrow> (OnError (err_message e), Some s1)
          | (Inr None, s1) \<Rightarrow> (OnNotFound ''File not found'', Some s1)
          | (Inr (Some v), s1) \<Rightarrow> (OnSuccessStream v, Some s1))) \<noteq> 404" for k s
    using getItem_cases [of k "[''arrayBuffer'']" s]
    by (cases "getItem k [''arrayBuffer''] s") auto
  then show ?thesis
    by (simp add: excute_download_def split: option.splits)
qed

subsection \<open>Guards\<close>

lemma guards_eq:
  "beforeEnter_api_get = three_checks ''GET''"
  "beforeEnter_api_update = three_checks ''POST''"
  "beforeEnter_api_add = three_checks ''POST''"
  "beforeEnter_api_delete = three_checks ''POST''"
  "beforeEnter_api_getList = three_checks ''GET''"
  "beforeEnter_api_getKvKeys = three_checks ''GET''"
  "beforeEnter_api_upload = three_checks ''POST''"
  "beforeEnter_api_download = three_checks ''GET''"
  by (rule ext, simp add: three_checks_def beforeEnter_api_get_def beforeEnter_api_update_def
      beforeEnter_api_add_def beforeEnter_api_delete_def beforeEnter_api_getList_def
      beforeEnter_api_getKvKeys_def beforeEnter_api_upload_def beforeEnter_api_download_def)+

subsection \<open>A failing call in a later item, and in the loop of getAll\<close>

lemma addItems_later_item_rethrows:
  assumes "addItems_loop pre s0 = (Inr u, s)" and "fails_at n e s"
    and "n = 0 \<or> n = 1 \<and> item_key it \<notin> set (listed s)"
  shows "fst (addItems (pre @ it # post) s0) =
    Inl (new_Error (toString (new_Error (toString e))))"
proof -
  have "fst (addItem (item_key it) (item_val it) (item_options it) s) =
      Inl (new_Error (toString e))"
    using addItem_rethrows [OF assms(2)] assms(3) by simp
  then have "fst (addItems_loop (it # post) s) = Inl (new_Error (toString e))"
    by (cases "addItem (item_key it) (item_val it) (item_options it) s") simp
  then have "fst (addItems_loop (pre @ it # post) s0) = Inl (new_Error (toString e))"
    by (simp add: addItems_loop_append [OF assms(1)])
  then show ?thesis
    by (simp add: addItems_def fst_catch_rethrow_Inl)
qed

lemma getAll_loop_fails:
  "fails_at n e s \<Longrightarrow> n < length keys \<Longrightarrow> fst (getAll_loop keys acc s) = Inl e"
proof (induction keys arbitrary: n acc s)
  case Nil
  then show ?case by simp
next
  case (Cons k ks)
  show ?case
  proof (cases n)
    case 0
    with Cons.prems have "fst (kv_getWithMetadata (key_name k) s) = Inl e"
      by (simp add: kv_getWithMetadata_fails_0)
    then show ?thesis
      by (cases "kv_getWithMetadata (key_name k) s") simp
  next
    case (Suc m)
    with Cons.prems obtain got s1
      where g: "kv_getWithMetadata (key_name k) s = (Inr got, s1)" and f: "fails_at m e s1"
      using kv_getWithMetadata_fails_Suc [of m e s "key_name k"] by auto
    from Cons.prems Suc have "m < length ks" by simp
    from Cons.IH [OF f this] show ?thesis
      by (simp add: g Let_def)
  qed
qed

lemma getAll_passes_on:
  assumes "fails_at n e s" and "n \<le> length (listed s)"
  shows "fst (getAll s) = Inl e"
proof (cases n)
  case 0
  with assms show ?thesis
    by (simp add: getAll_def fst_await_Inl kv_list_fails_0)
next
  case (Suc m)
  with assms obtain s1 where g: "kv_list s = (Inr (map ListKey (listed s)), s1)"
    and f: "fails_at m e s1"
    using kv_list_fails_Suc [of m e s] by auto
  from assms Suc have "m < length (map ListKey (listed s))" by simp
  from getAll_loop_fails [OF f this] show ?thesis
    by (simp add: getAll_def g await_def)
qed

section \<open>The claims\<close>

text \<open>
  C1. \<open>addItem\<close> fails when the key is among the keys that the store lists, and puts
  only when it is absent from them; the check is a list call followed by a separate put.
  Let the list call of \<open>addItem\<close> answer \<open>keys\<close> and leave the store \<open>s1\<close>. If the key is
  the name of one of \<open>keys\<close>, the body throws \<^verbatim>\<open>Key k already exists\<close>, \<open>addItem\<close>
  rejects (the catch clause puts \<^verbatim>\<open>Error: \<close> before the message), and the list call is
  the only call issued: the entries are those before. If it is not, \<open>addItem\<close> is the
  put on \<open>s1\<close>, and the calls issued are the list call and then the put.
\<close>

theorem addItem_duplicate_check:
  "(kv_list s = (Inl e, s1) \<longrightarrow>
      addItem key v options s = (Inl (new_Error (toString e)), s1) \<and>
      entries s1 = entries s \<and> calls s1 = calls s @ [CallList]) \<and>
   (kv_list s = (Inr keys, s1) \<and> key \<in> key_name ` set keys \<longrightarrow>
      addItem_try key v options s =
        (Inl (new_Error (''Key '' @ key @ '' already exists'')), s1) \<and>
      addItem key v options s =
        (Inl (new_Error (''Error: Key '' @ key @ '' already exists'')), s1) \<and>
      entries s1 = entries s \<and> calls s1 = calls s @ [CallList]) \<and>
   (kv_list s = (Inr keys, s1) \<and> key \<notin> key_name ` set keys \<longrightarrow>
      addItem key v options s =
        catch_rethrow (kv_put key v (addItem_options options) s1) \<and>
      calls (snd (addItem key v options s)) =
        calls s @ [CallList, CallPut key v (addItem_options options)])"
proof (intro conjI impI)
  assume a: "kv_list s = (Inl e, s1)"
  then show "addItem key v options s = (Inl (new_Error (toString e)), s1)"
    by (simp add: addItem_def addItem_try_def hasKey_unfold await_def catch_rethrow_def)
  show "entries s1 = entries s" "calls s1 = calls s @ [CallList]"
    using kv_list_frame [OF a] by simp_all
next
  assume a: "kv_list s = (Inr keys, s1) \<and> key \<in> key_name ` set keys"
  then have l: "kv_list s = (Inr keys, s1)" and k: "key \<in> key_name ` set keys"
    by simp_all
  from addItem_after_list [OF l, of key v options] k
  show "addItem_try key v options s =
      (Inl (new_Error (''Key '' @ key @ '' already exists'')), s1)"
    and "addItem key v options s =
      (Inl (new_Error (''Error: Key '' @ key @ '' already exists'')), s1)"
    and "entries s1 = entries s" and "calls s1 = calls s @ [CallList]"
    by blast+
next
  assume a: "kv_list s = (Inr keys, s1) \<and> key \<notin> key_name ` set keys"
  then have l: "kv_list s = (Inr keys, s1)" and k: "key \<notin> key_name ` set keys"
    by simp_all
  from addItem_after_list [OF l, of key v options] k
  show "addItem key v options s =
      catch_rethrow (kv_put key v (addItem_options options) s1)"
    and "calls (snd (addItem key v options s)) =
      calls s @ [CallList, CallPut key v (addItem_options options)]"
    by blast+
qed

theorem addItem_duplicate_check_witness:
  "addItem ''a'' (Text ''2'') None (store_of [(''a'', plain_entry ''1'' None)] []) =
     (Inl (JsError ''Error'' ''Error: Key a already exists''),
      \<lparr>entries = [(''a'', plain_entry ''1'' None)], faults = [], list_limit = 1000,
       calls = [CallList]\<rparr>) \<and>
   calls (snd (addItem ''b'' (Text ''2'') None (store_of [(''a'', plain_entry ''1'' None)] []))) =
     [CallList,
      CallPut ''b'' (Text ''2'')
        \<lparr>expiration = Some 60, expirationTtl = Some 60, metadata = None\<rparr>]"
proof -
  let ?s = "store_of [(''a'', plain_entry ''1'' None)] []"
  let ?s1 = "\<lparr>entries = [(''a'', plain_entry ''1'' None)], faults = [], list_limit = 1000,
       calls = [CallList]\<rparr>"
  have h: "kv_list ?s = (Inr [ListKey ''a''], ?s1)"
    by (simp add: kv_list_def store_call_def store_of_def)
  have a: "''a'' \<in> key_name ` set [ListKey ''a'']" by simp
  have b: "''b'' \<notin> key_name ` set [ListKey ''a'']" by simp
  have c: "calls ?s = []" by (simp add: store_of_def)
  from addItem_duplicate_check [of ?s "JsError [] []" ?s1 "''a''" "Text ''2''" None
      "[ListKey ''a'']"] h a
  have 1: "addItem ''a'' (Text ''2'') None ?s =
      (Inl (new_Error (''Error: Key '' @ ''a'' @ '' already exists'')), ?s1)"
    by blast
  from addItem_duplicate_check [of ?s "JsError [] []" ?s1 "''b''" "Text ''2''" None
      "[ListKey ''a'']"] h b
  have 2: "calls (snd (addItem ''b'' (Text ''2'') None ?s)) =
      calls ?s @ [CallList, CallPut ''b'' (Text ''2'') (addItem_options None)]"
    by blast
  show ?thesis
    using 1 2 c by (simp add: new_Error_def addItem_options_def)
qed

text \<open>
  C10. \<open>addItems\<close> and \<open>deleteItems\<close> reject the empty array: the call rejects, and the
  store after the call is the store before it, with no call issued. The error is the
  \<^verbatim>\<open>No items to add\<close> (\<^verbatim>\<open>No keys to delete\<close>) that the body throws, wrapped by the catch
  clause, which puts \<^verbatim>\<open>Error: \<close> before the message.
\<close>

theorem addItems_deleteItems_reject_empty:
  "addItems [] s = (Inl (JsError ''Error'' ''Error: No items to add''), s) \<and>
   deleteItems [] s = (Inl (JsError ''Error'' ''Error: No keys to delete''), s) \<and>
   addItems [] s = (Inl (new_Error (toString (new_Error ''No items to add''))), s) \<and>
   deleteItems [] s = (Inl (new_Error (toString (new_Error ''No keys to delete''))), s)"
  by (simp add: addItems_def deleteItems_def catch_rethrow_def new_Error_def toString_def)

text \<open>
  C5, as the claim states it, fails: the message of the error that \<open>getItem\<close> throws is
  not the message of the store's error. With a store whose next call throws an
  \<^verbatim>\<open>Error\<close> with the message \<^verbatim>\<open>boom\<close>, the get call throws that error and \<open>getItem\<close>
  throws an \<^verbatim>\<open>Error\<close> with the message \<^verbatim>\<open>Error: boom\<close>.
\<close>

theorem rethrown_message_counterexample:
  "fst (kv_get ''a'' [] (store_of [] [Some (JsError ''Error'' ''boom'')])) =
     Inl (JsError ''Error'' ''boom'') \<and>
   fst (getItem ''a'' [] (store_of [] [Some (JsError ''Error'' ''boom'')])) =
     Inl (JsError ''Error'' ''Error: boom'')"
  by (simp add: getItem_def kv_get_def store_call_def store_of_def await_def catch_rethrow_def
      new_Error_def toString_def)

text \<open>
  C5, amended. Let the store call that fails be call number \<open>n\<close> (counted from 0) of those
  still to come on the store \<open>s\<close>, throwing \<open>e\<close>. Every controller operation with a catch
  clause that reaches this call rejects with a generic \<^verbatim>\<open>Error\<close> whose message is the
  string form of \<open>e\<close>: \<open>getItem\<close> and \<open>updateItem\<close> (two calls each), \<open>addItem\<close> (the list
  call, and the put when the key is not listed), \<open>deleteItem\<close> (one call), \<open>clear\<close> (the
  list call and one delete per listed key). \<open>deleteItems\<close> and \<open>addItems\<close> catch the error
  of \<open>deleteItem\<close> and \<open>addItem\<close> and wrap it once more, whichever element the failing call
  belongs to: for \<open>addItems\<close>, \<open>s\<close> is the store that the loop over the items before it
  has left. \<open>getKeys\<close>, \<open>hasKey\<close> and \<open>getAll\<close> (the list call and one read per listed
  key) have no catch clause and pass \<open>e\<close> on as it is. The string form of an error that
  has a name and a message is the name, a colon and a blank, and the message, so the
  message of the store's error is the end of the new message, after \<^verbatim>\<open>Error: \<close> for a store
  error named \<^verbatim>\<open>Error\<close>; of an error without a name it is the message alone, and of an
  error without a message the name alone.
\<close>

theorem store_failure_rethrown:
  assumes "fails_at n e s"
  shows "(n < 2 \<longrightarrow>
            fst (getItem key gopts s) = Inl (new_Error (toString e)) \<and>
            fst (updateItem key v options s) = Inl (new_Error (toString e))) \<and>
         (n = 0 \<or> n = 1 \<and> key \<notin> set (listed s) \<longrightarrow>
            fst (addItem key v options s) = Inl (new_Error (toString e))) \<and>
         (n = 0 \<longrightarrow> fst (deleteItem key s) = Inl (new_Error (toString e))) \<and>
         (n \<le> length (listed s) \<longrightarrow> fst (clear s) = Inl (new_Error (toString e))) \<and>
         (n < length keys \<longrightarrow>
            fst (deleteItems keys s) = Inl (new_Error (toString (new_Error (toString e))))) \<and>
         (addItems_loop pre s0 = (Inr (), s) \<and>
          (n = 0 \<or> n = 1 \<and> item_key it \<notin> set (listed s)) \<longrightarrow>
            fst (addItems (pre @ it # post) s0) =
              Inl (new_Error (toString (new_Error (toString e))))) \<and>
         (n = 0 \<longrightarrow> fst (getKeys s) = Inl e \<and> fst (hasKey key s) = Inl e) \<and>
         (n \<le> length (listed s) \<longrightarrow> fst (getAll s) = Inl e) \<and>
         err_name (new_Error (toString e)) = ''Error'' \<and>
         (err_name e \<noteq> [] \<and> err_message e \<noteq> [] \<longrightarrow>
            err_message (new_Error (toString e)) = err_name e @ '': '' @ err_message e) \<and>
         (err_name e = [] \<longrightarrow> err_message (new_Error (toString e)) = err_message e) \<and>
         (err_name e \<noteq> [] \<and> err_message e = [] \<longrightarrow>
            err_message (new_Error (toString e)) = err_name e)"
proof (intro conjI impI)
  show "err_name (new_Error (toString e)) = ''Error''"
    by (simp add: new_Error_def)
  show "err_message (new_Error (toString e)) = err_name e @ '': '' @ err_message e"
    if "err_name e \<noteq> [] \<and> err_message e \<noteq> []"
    using that by (simp add: new_Error_def toString_def)
  show "err_message (new_Error (toString e)) = err_message e" if "err_name e = []"
    using that by (simp add: new_Error_def toString_def)
  show "err_message (new_Error (toString e)) = err_name e"
    if "err_name e \<noteq> [] \<and> err_message e = []"
    using that by (simp add: new_Error_def toString_def)
  show "fst (getItem key gopts s) = Inl (new_Error (toString e))" if "n < 2"
    using getItem_rethrows [OF assms that] .
  show "fst (updateItem key v options s) = Inl (new_Error (toString e))" if "n < 2"
    using updateItem_rethrows [OF assms that] .
  show "fst (addItem key v options s) = Inl (new_Error (toString e))"
    if "n = 0 \<or> n = 1 \<and> key \<notin> set (listed s)"
    using addItem_rethrows [OF assms that] .
  show "fst (deleteItem key s) = Inl (new_Error (toString e))" if "n = 0"
    using deleteItem_rethrows assms that by simp
  show "fst (clear s) = Inl (new_Error (toString e))" if "n \<le> length (listed s)"
    using clear_rethrows [OF assms that] .
  show "fst (deleteItems keys s) = Inl (new_Error (toString (new_Error (toString e))))"
    if "n < length keys"
    using deleteItems_rethrows [OF assms that] .
  show "fst (addItems (pre @ it # post) s0) =
      Inl (new_Error (toString (new_Error (toString e))))"
    if "addItems_loop pre s0 = (Inr (), s) \<and>
        (n = 0 \<or> n = 1 \<and> item_key it \<notin> set (listed s))"
    using addItems_later_item_rethrows [of pre s0 "()" s n e it post] assms that by blast
  show "fst (getKeys s) = Inl e" if "n = 0"
    using no_catch_passes_on assms that by simp
  show "fst (hasKey key s) = Inl e" if "n = 0"
    using no_catch_passes_on assms that by simp
  show "fst (getAll s) = Inl e" if "n \<le> length (listed s)"
    using getAll_passes_on [OF assms that] .
qed

theorem store_failure_rethrown_witness:
  "fails_at 0 (JsError ''Error'' ''boom'') (store_of [] [Some (JsError ''Error'' ''boom'')]) \<and>
   fst (getItem ''a'' [] (store_of [] [Some (JsError ''Error'' ''boom'')])) =
     Inl (JsError ''Error'' ''Error: boom'') \<and>
   fst (deleteItems [''a''] (store_of [] [Some (JsError ''Error'' ''boom'')])) =
     Inl (JsError ''Error'' ''Error: Error: boom'') \<and>
   fst (addItems
          [\<lparr>item_key = ''a'', item_val = Text ''1'', item_options = None\<rparr>,
           \<lparr>item_key = ''b'', item_val = Text ''2'', item_options = None\<rparr>]
          (store_of [] [None, None, None, Some (JsError ''Error'' ''boom'')])) =
     Inl (JsError ''Error'' ''Error: Error: boom'') \<and>
   fst (getAll (store_of [(''k'', plain_entry ''1'' None)]
                  [None, Some (JsError ''Error'' ''boom'')])) =
     Inl (JsError ''Error'' ''boom'')"
proof -
  let ?e = "JsError ''Error'' ''boom''"
  let ?first = "store_of [] [Some ?e]"
  let ?a = "\<lparr>item_key = ''a'', item_val = Text ''1'', item_options = None\<rparr>"
  let ?b = "\<lparr>item_key = ''b'', item_val = Text ''2'', item_options = None\<rparr>"
  let ?init = "store_of [] [None, None, None, Some ?e]"
  let ?mid = "\<lparr>entries =
         [(''a'', \<lparr>entry_val = Text ''1'', entry_metadata = None,
                   entry_expiration = Some 60, entry_expirationTtl = Some 60\<rparr>)],
       faults = [None, Some ?e], list_limit = 1000,
       calls = [CallList,
                CallPut ''a'' (Text ''1'')
                  \<lparr>expiration = Some 60, expirationTtl = Some 60, metadata = None\<rparr>]\<rparr>"
  let ?g = "store_of [(''k'', plain_entry ''1'' None)] [None, Some ?e]"
  have h: "fails_at 0 ?e ?first"
    by (simp add: fails_at_def store_of_def)
  have "fails_at (Suc 0) ?e ?mid"
    by (simp add: fails_at_def)
  then have h1: "fails_at 1 ?e ?mid" by simp
  have l1: "addItems_loop [?a] ?init = (Inr (), ?mid)"
    by (simp add: run_defs)
  have k1: "item_key ?b \<notin> set (listed ?mid)"
    by (simp add: listed_def)
  have "fails_at (Suc 0) ?e ?g"
    by (simp add: fails_at_def store_of_def)
  then have hg: "fails_at 1 ?e ?g" by simp
  have lg: "1 \<le> length (listed ?g)"
    by (simp add: listed_def store_of_def)
  from store_failure_rethrown [OF h, of "''a''" "[]" "Text ''x''" None "[''a'']" "[]" ?first ?a "[]"]
  have 1: "fst (getItem ''a'' [] ?first) = Inl (new_Error (toString ?e))"
    and 2: "fst (deleteItems [''a''] ?first) =
      Inl (new_Error (toString (new_Error (toString ?e))))"
    by simp_all
  from store_failure_rethrown [OF h1, of "''a''" "[]" "Text ''x''" None "[]" "[?a]" ?init ?b "[]"]
    l1 k1
  have 3: "fst (addItems ([?a] @ ?b # []) ?init) =
      Inl (new_Error (toString (new_Error (toString ?e))))"
    by blast
  from store_failure_rethrown [OF hg, of "''a''" "[]" "Text ''x''" None "[]" "[]" ?g ?a "[]"]
    lg
  have 4: "fst (getAll ?g) = Inl ?e"
    by blast
  show ?thesis
    using h 1 2 3 4 by (simp add: new_Error_def toString_def)
qed

text \<open>
  C6. \<open>updateItem\<close> passes the stored metadata through: for a key with an entry whose
  metadata is \<open>m\<close>, after a call of \<open>updateItem\<close> that returns, the entry under the key
  holds the new value and the metadata \<open>m\<close>, and every other key has the entry it had.
\<close>

theorem updateItem_metadata_passthrough:
  assumes "map_of (entries s) key = Some en" and "entry_metadata en = Some m"
    and "updateItem key v options s = (Inr u, s')"
  shows "\<exists>en'. map_of (entries s') = (map_of (entries s))(key \<mapsto> en') \<and>
               entry_val en' = v \<and> entry_metadata en' = Some m"
proof -
  let ?en = "\<lparr>entry_val = v, entry_metadata = Some m,
      entry_expiration = (case options of None \<Rightarrow> None | Some opts \<Rightarrow> expiration opts),
      entry_expirationTtl =
        (case options of None \<Rightarrow> None | Some opts \<Rightarrow> expirationTtl opts)\<rparr>"
  have "entries s' = AList.update key ?en (entries s)"
    using updateItem_Inr [OF assms(3)] assms(1,2) by simp
  then have "map_of (entries s') = (map_of (entries s))(key \<mapsto> ?en)"
    by (simp add: update_conv')
  moreover have "entry_val ?en = v" "entry_metadata ?en = Some m" by simp_all
  ultimately show ?thesis by blast
qed

theorem updateItem_metadata_passthrough_witness:
  "updateItem ''a'' (Text ''new'') None
     (store_of [(''a'', plain_entry ''old'' (Some [(''valueType'', ''TEXT'')]))] []) =
     (Inr (),
      \<lparr>entries = [(''a'', plain_entry ''new'' (Some [(''valueType'', ''TEXT'')]))],
       faults = [], list_limit = 1000,
       calls = [CallGetWithMetadata ''a'',
                CallPut ''a'' (Text ''new'')
                  \<lparr>expiration = None, expirationTtl = None,
                   metadata = Some [(''valueType'', ''TEXT'')]\<rparr>]\<rparr>)"
proof -
  have h: "updateItem ''a'' (Text ''new'') None
     (store_of [(''a'', plain_entry ''old'' (Some [(''valueType'', ''TEXT'')]))] []) =
     (Inr (),
      \<lparr>entries = [(''a'', plain_entry ''new'' (Some [(''valueType'', ''TEXT'')]))],
       faults = [], list_limit = 1000,
       calls = [CallGetWithMetadata ''a'',
                CallPut ''a'' (Text ''new'')
                  \<lparr>expiration = None, expirationTtl = None,
                   metadata = Some [(''valueType'', ''TEXT'')]\<rparr>]\<rparr>)"
    by (simp add: run_defs)
  have e: "map_of (entries
      (store_of [(''a'', plain_entry ''old'' (Some [(''valueType'', ''TEXT'')]))] [])) ''a'' =
      Some (plain_entry ''old'' (Some [(''valueType'', ''TEXT'')]))"
    by (simp add: store_of_def)
  have m: "entry_metadata (plain_entry ''old'' (Some [(''valueType'', ''TEXT'')])) =
      Some [(''valueType'', ''TEXT'')]"
    by (simp add: plain_entry_def)
  show ?thesis
    using updateItem_metadata_passthrough [OF e m h] h by simp
qed

text \<open>
  C9. When the caller passes no expiration options, the entry that a returning \<open>addItem\<close>
  writes has \<^verbatim>\<open>expirationTtl\<close> 60 and \<^verbatim>\<open>expiration\<close> 60; the entry that a returning
  \<open>updateItem\<close> writes for such a caller has neither. The same holds for the store that the
  handlers of \<^verbatim>\<open>/api/add\<close> and \<^verbatim>\<open>/api/update\<close> leave, which call the two without options.
\<close>

theorem addItem_default_expiration:
  "(no_expiration options \<and> addItem key v options s = (Inr u, s') \<longrightarrow>
      (\<exists>en. map_of (entries s') key = Some en \<and>
            entry_expirationTtl en = Some 60 \<and> entry_expiration en = Some 60)) \<and>
   (no_expiration options \<and> updateItem key v options s = (Inr u, s') \<longrightarrow>
      (\<exists>en. map_of (entries s') key = Some en \<and>
            entry_expirationTtl en = None \<and> entry_expiration en = None)) \<and>
   (k \<noteq> [] \<and> x \<noteq> [] \<and> fst (addItem k (Text x) None s) = Inr u \<longrightarrow>
      (\<exists>s2 en. snd (excute_add \<lparr>body_key = Some k, body_val = Some x\<rparr> (Some s)) = Some s2 \<and>
            map_of (entries s2) k = Some en \<and>
            entry_expirationTtl en = Some 60 \<and> entry_expiration en = Some 60)) \<and>
   (k \<noteq> [] \<and> x \<noteq> [] \<and> fst (updateItem k (Text x) None s) = Inr u \<longrightarrow>
      (\<exists>s2 en. snd (excute_update \<lparr>body_key = Some k, body_val = Some x\<rparr> (Some s)) = Some s2 \<and>
            map_of (entries s2) k = Some en \<and>
            entry_expirationTtl en = None \<and> entry_expiration en = None))"
proof (intro conjI impI)
  assume a: "no_expiration options \<and> addItem key v options s = (Inr u, s')"
  then show "\<exists>en. map_of (entries s') key = Some en \<and>
            entry_expirationTtl en = Some 60 \<and> entry_expiration en = Some 60"
    using addItem_Inr [of key v options s u s']
    by (auto simp: update_conv' no_expiration_def addItem_options_def split: option.splits)
next
  assume a: "no_expiration options \<and> updateItem key v options s = (Inr u, s')"
  then show "\<exists>en. map_of (entries s') key = Some en \<and>
            entry_expirationTtl en = None \<and> entry_expiration en = None"
    using updateItem_Inr [of key v options s u s']
    by (auto simp: update_conv' no_expiration_def split: option.splits)
next
  assume a: "k \<noteq> [] \<and> x \<noteq> [] \<and> fst (addItem k (Text x) None s) = Inr u"
  then obtain s1 where r: "addItem k (Text x) None s = (Inr u, s1)"
    by (cases "addItem k (Text x) None s") auto
  from read_back_entries [of k u s1] obtain s2
    where s2: "snd (read_back k (Inr u, s1)) = Some s2" "entries s2 = entries s1" by blast
  have "snd (excute_add \<lparr>body_key = Some k, body_val = Some x\<rparr> (Some s)) = Some s2"
    using a s2 by (simp add: excute_add_def r)
  moreover have "\<exists>en. map_of (entries s1) k = Some en \<and>
            entry_expirationTtl en = Some 60 \<and> entry_expiration en = Some 60"
    using addItem_Inr [OF r] by (simp add: update_conv' addItem_options_def)
  ultimately show "\<exists>s2 en.
      snd (excute_add \<lparr>body_key = Some k, body_val = Some x\<rparr> (Some s)) = Some s2 \<and>
      map_of (entries s2) k = Some en \<and>
      entry_expirationTtl en = Some 60 \<and> entry_expiration en = Some 60"
    using s2 by auto
next
  assume a: "k \<noteq> [] \<and> x \<noteq> [] \<and> fst (updateItem k (Text x) None s) = Inr u"
  then obtain s1 where r: "updateItem k (Text x) None s = (Inr u, s1)"
    by (cases "updateItem k (Text x) None s") auto
  from read_back_entries [of k u s1] obtain s2
    where s2: "snd (read_back k (Inr u, s1)) = Some s2" "entries s2 = entries s1" by blast
  have "snd (excute_update \<lparr>body_key = Some k, body_val = Some x\<rparr> (Some s)) = Some s2"
    using a s2 by (simp add: excute_update_def r)
  moreover have "\<exists>en. map_of (entries s1) k = Some en \<and>
            entry_expirationTtl en = None \<and> entry_expiration en = None"
    using updateItem_Inr [OF r] by (simp add: update_conv')
  ultimately show "\<exists>s2 en.
      snd (excute_update \<lparr>body_key = Some k, body_val = Some x\<rparr> (Some s)) = Some s2 \<and>
      map_of (entries s2) k = Some en \<and>
      entry_expirationTtl en = None \<and> entry_expiration en = None"
    using s2 by auto
qed

theorem addItem_default_expiration_witness:
  "no_expiration None \<and>
   addItem ''a'' (Text ''x'') None (store_of [] []) =
     (Inr (),
      \<lparr>entries = [(''a'', \<lparr>entry_val = Text ''x'', entry_metadata = None,
                           entry_expiration = Some 60, entry_expirationTtl = Some 60\<rparr>)],
       faults = [], list_limit = 1000,
       calls = [CallList,
                CallPut ''a'' (Text ''x'')
                  \<lparr>expiration = Some 60, expirationTtl = Some 60, metadata = None\<rparr>]\<rparr>) \<and>
   updateItem ''a'' (Text ''x'') None (store_of [] []) =
     (Inr (),
      \<lparr>entries = [(''a'', \<lparr>entry_val = Text ''x'', entry_metadata = None,
                           entry_expiration = None, entry_expirationTtl = None\<rparr>)],
       faults = [], list_limit = 1000,
       calls = [CallGetWithMetadata ''a'',
                CallPut ''a'' (Text ''x'')
                  \<lparr>expiration = None, expirationTtl = None, metadata = None\<rparr>]\<rparr>)"
proof -
  have h: "no_expiration None" by (simp add: no_expiration_def)
  show ?thesis
    using h addItem_default_expiration [of None "''a''" "Text ''x''" "store_of [] []" "()"
        "snd (addItem ''a'' (Text ''x'') None (store_of [] []))" "''a''" "''x''"]
    by (simp add: run_defs)
qed

text \<open>
  C2 at a concrete input: on the empty store, \<open>addItem\<close> of the key \<^verbatim>\<open>a\<close> without options
  (the call of \<^verbatim>\<open>/api/add\<close>) returns and writes an entry without metadata. \<open>getItem\<close> of
  that key then throws the \<^verbatim>\<open>TypeError\<close> of reading \<^verbatim>\<open>valueType\<close> of null, so the handler of
  \<^verbatim>\<open>/api/add\<close> answers with an error after the entry is stored; \<open>getAll\<close> reports the
  default \<^verbatim>\<open>TEXT\<close>, which is not stored. \<open>updateItem\<close> of a new key (the call of
  \<^verbatim>\<open>/api/upload\<close>) writes an entry without metadata as well.
\<close>

theorem addItem_attaches_no_valueType:
  "addItem ''a'' (Text ''x'') None (store_of [] []) =
     (Inr (),
      \<lparr>entries = [(''a'', \<lparr>entry_val = Text ''x'', entry_metadata = None,
                           entry_expiration = Some 60, entry_expirationTtl = Some 60\<rparr>)],
       faults = [], list_limit = 1000,
       calls = [CallList,
                CallPut ''a'' (Text ''x'')
                  \<lparr>expiration = Some 60, expirationTtl = Some 60, metadata = None\<rparr>]\<rparr>) \<and>
   fst (getItem ''a'' [] (snd (addItem ''a'' (Text ''x'') None (store_of [] [])))) =
     Inl (JsError ''Error''
            ''TypeError: Cannot read properties of null (reading 'valueType')'') \<and>
   fst (excute_add \<lparr>body_key = Some ''a'', body_val = Some ''x''\<rparr> (Some (store_of [] []))) =
     OnError ''TypeError: Cannot read properties of null (reading 'valueType')'' \<and>
   fst (getAll (snd (addItem ''a'' (Text ''x'') None (store_of [] [])))) =
     Inr [\<lparr>all_key = ''a'', all_val = Some (Text ''x''), all_valueType = ''TEXT''\<rparr>] \<and>
   entries (snd (updateItem ''f'' (Bytes [1, 2]) None (store_of [] []))) =
     [(''f'', \<lparr>entry_val = Bytes [1, 2], entry_metadata = None,
               entry_expiration = None, entry_expirationTtl = None\<rparr>)]"
  by (simp add: run_defs excute_add_def read_back_def VALUE_TYPE_TEXT_def)

text \<open>
  C3, as the claim states it, fails for two of the guarded routes. The guard of
  \<^verbatim>\<open>/api/verifyToken\<close> accepts a POST request whose token check fails and that has no
  \<^verbatim>\<open>kv\<close> header; the guard of \<^verbatim>\<open>/api/getKvList\<close> accepts a GET request without the \<^verbatim>\<open>kv\<close> header.
\<close>

theorem guard_counterexample:
  "\<lparr>path = ''/api/verifyToken'', beforeEnter = Some beforeEnter_api_verifyToken\<rparr> \<in> set routes \<and>
   beforeEnter_api_verifyToken (check_of ''POST'' False None None) = AcceptEnter \<and>
   \<lparr>path = ''/api/getKvList'', beforeEnter = Some beforeEnter_api_getKvList\<rparr> \<in> set routes \<and>
   beforeEnter_api_getKvList (check_of ''GET'' True None (Some ''KV'')) = AcceptEnter"
  by (simp add: routes_def beforeEnter_api_verifyToken_def beforeEnter_api_getKvList_def
      check_of_def falsy_def)

text \<open>
  C3, amended. Every guarded route other than \<^verbatim>\<open>/api/verifyToken\<close> and \<^verbatim>\<open>/api/getKvList\<close> has
  as its guard the three checks for GET or for POST: a request of another method is
  rejected for its method whatever the token and the header; with the right method a
  failing token check is rejected for the token whatever the header; with both right a
  missing or empty \<^verbatim>\<open>kv\<close> header is rejected; the guard accepts exactly when all three
  checks pass. The guard of \<^verbatim>\<open>/api/verifyToken\<close> accepts exactly the POST requests, and the
  guard of \<^verbatim>\<open>/api/getKvList\<close> accepts exactly the GET requests with a passing token check
  in an environment that has a non-empty \<^verbatim>\<open>KV_KEYS\<close>.
\<close>

theorem guards_three_checks:
  "(\<forall>r \<in> set routes. \<forall>g.
      beforeEnter r = Some g \<and> path r \<noteq> ''/api/verifyToken'' \<and> path r \<noteq> ''/api/getKvList'' \<longrightarrow>
      (\<exists>m. (m = ''GET'' \<or> m = ''POST'') \<and> g = three_checks m)) \<and>
   (\<forall>m c.
      (\<not> check_method c m \<longrightarrow> three_checks m c = RejectMethodEnter) \<and>
      (check_method c m \<and> \<not> check_token c \<longrightarrow> three_checks m c = RejectTokenEnter) \<and>
      (check_method c m \<and> check_token c \<and> falsy (header_kv c) \<longrightarrow>
         three_checks m c = RejectNotKVEnter) \<and>
      (three_checks m c = AcceptEnter \<longleftrightarrow>
         check_method c m \<and> check_token c \<and> \<not> falsy (header_kv c))) \<and>
   (\<forall>c. beforeEnter_api_verifyToken c = AcceptEnter \<longleftrightarrow> check_method c ''POST'') \<and>
   (\<forall>c. beforeEnter_api_getKvList c = AcceptEnter \<longleftrightarrow>
      check_method c ''GET'' \<and> check_token c \<and> \<not> falsy (env_KV_KEYS c))"
proof (intro conjI)
  show "\<forall>r \<in> set routes. \<forall>g.
      beforeEnter r = Some g \<and> path r \<noteq> ''/api/verifyToken'' \<and> path r \<noteq> ''/api/getKvList'' \<longrightarrow>
      (\<exists>m. (m = ''GET'' \<or> m = ''POST'') \<and> g = three_checks m)"
    by (simp add: routes_def guards_eq) blast
  show "\<forall>m c.
      (\<not> check_method c m \<longrightarrow> three_checks m c = RejectMethodEnter) \<and>
      (check_method c m \<and> \<not> check_token c \<longrightarrow> three_checks m c = RejectTokenEnter) \<and>
      (check_method c m \<and> check_token c \<and> falsy (header_kv c) \<longrightarrow>
         three_checks m c = RejectNotKVEnter) \<and>
      (three_checks m c = AcceptEnter \<longleftrightarrow>
         check_method c m \<and> check_token c \<and> \<not> falsy (header_kv c))"
    by (simp add: three_checks_def)
  show "\<forall>c. beforeEnter_api_verifyToken c = AcceptEnter \<longleftrightarrow> check_method c ''POST''"
    by (simp add: beforeEnter_api_verifyToken_def)
  show "\<forall>c. beforeEnter_api_getKvList c = AcceptEnter \<longleftrightarrow>
      check_method c ''GET'' \<and> check_token c \<and> \<not> falsy (env_KV_KEYS c)"
    by (simp add: beforeEnter_api_getKvList_def)
qed

theorem guards_three_checks_witness:
  "beforeEnter_api_get (check_of ''POST'' True (Some ''KV'') None) = RejectMethodEnter \<and>
   beforeEnter_api_add (check_of ''POST'' False (Some ''KV'') None) = RejectTokenEnter \<and>
   beforeEnter_api_get (check_of ''GET'' True None None) = RejectNotKVEnter \<and>
   beforeEnter_api_get (check_of ''GET'' True (Some ''KV'') None) = AcceptEnter"
  using guards_three_checks
  by (simp add: guards_eq three_checks_def check_of_def falsy_def)

text \<open>
  C4. Let the list call of \<open>clear\<close> answer \<open>keys\<close>. The calls that \<open>clear\<close> issues are the list
  call and then one delete for every listed key, whether or not a delete fails. When
  \<open>clear\<close> returns, no listed key has an entry in the store. The batch is not atomic:
  every listed key whose own delete succeeded is gone from the store also when \<open>clear\<close>
  rejects.
\<close>

theorem clear_deletes_listed:
  assumes "kv_list s = (Inr keys, s1)"
  shows "calls (snd (clear s)) = calls s @ CallList # map (CallDelete \<circ> key_name) keys \<and>
         (fst (clear s) = Inr () \<longrightarrow>
            (\<forall>k \<in> set keys. map_of (entries (snd (clear s))) (key_name k) = None)) \<and>
         (\<forall>i < length keys. fst (delete_each keys s1) ! i = Inr () \<longrightarrow>
            map_of (entries (snd (clear s))) (key_name (keys ! i)) = None)"
proof -
  obtain rs s2 where d: "delete_each keys s1 = (rs, s2)" by (cases "delete_each keys s1")
  have s2: "snd (clear s) = s2"
    by (simp add: clear_def assms await_def d catch_rethrow_def split: sum.splits)
  have c: "calls s2 = calls s @ CallList # map (CallDelete \<circ> key_name) keys"
    using delete_each_calls [of keys s1] d kv_list_frame [OF assms] by simp
  have part: "\<forall>i < length keys. fst (delete_each keys s1) ! i = Inr () \<longrightarrow>
      map_of (entries s2) (key_name (keys ! i)) = None"
    using delete_each_done [of _ keys s1] d by simp
  have "\<forall>k \<in> set keys. map_of (entries s2) (key_name k) = None" if ok: "fst (clear s) = Inr ()"
  proof
    fix k assume "k \<in> set keys"
    then obtain i where i: "i < length keys" "keys ! i = k" by (auto simp: in_set_conv_nth)
    from ok obtain as where pa: "promise_all rs = Inr as"
      by (cases "promise_all rs") (simp_all add: clear_def assms await_def d catch_rethrow_def)
    have "length rs = length keys" using delete_each_length [of keys s1] d by simp
    with promise_all_Inr [OF pa, of i] i have "rs ! i = Inr ()" by auto
    with part i d show "map_of (entries s2) (key_name k) = None" by auto
  qed
  with c part s2 show ?thesis by simp
qed

theorem clear_deletes_listed_witness:
  "clear (store_of [(''a'', plain_entry ''1'' None), (''b'', plain_entry ''2'' None)] []) =
     (Inr (),
      \<lparr>entries = [], faults = [], list_limit = 1000,
       calls = [CallList, CallDelete ''a'', CallDelete ''b'']\<rparr>) \<and>
   clear (store_of [(''a'', plain_entry ''1'' None), (''b'', plain_entry ''2'' None)]
            [None, Some (JsError ''Error'' ''boom'')]) =
     (Inl (JsError ''Error'' ''Error: boom''),
      \<lparr>entries = [(''a'', plain_entry ''1'' None)], faults = [], list_limit = 1000,
       calls = [CallList, CallDelete ''a'', CallDelete ''b'']\<rparr>)"
proof -
  have h: "kv_list (store_of [(''a'', plain_entry ''1'' None), (''b'', plain_entry ''2'' None)] []) =
      (Inr [ListKey ''a'', ListKey ''b''],
       \<lparr>entries = [(''a'', plain_entry ''1'' None), (''b'', plain_entry ''2'' None)],
        faults = [], list_limit = 1000, calls = [CallList]\<rparr>)"
    by (simp add: run_defs)
  show ?thesis
    using clear_deletes_listed [OF h]
    by (simp add: run_defs)
qed

text \<open>
  C7. \<open>addItems\<close> and \<open>deleteItems\<close> run their input in order and do not roll back. If the
  loop over the first items returns with the store \<open>s1\<close> and the call for the next item
  rejects, then the whole call rejects, with that error wrapped once more; the entries
  after it are those of \<open>s1\<close>: every key added before is still stored (every key deleted
  before is still gone), and the items after the failing one are not reached.
\<close>

theorem batch_not_atomic:
  "(addItems_loop pre s = (Inr u, s1) \<and>
    addItem (item_key it) (item_val it) (item_options it) s1 = (Inl e, s2) \<longrightarrow>
      addItems (pre @ it # post) s = (Inl (new_Error (toString e)), s2) \<and>
      entries s2 = entries s1 \<and>
      (\<forall>p \<in> set pre. map_of (entries s2) (item_key p) \<noteq> None)) \<and>
   (deleteItems_loop kpre s = (Inr u, s1) \<and> deleteItem k s1 = (Inl e, s2) \<longrightarrow>
      deleteItems (kpre @ k # kpost) s = (Inl (new_Error (toString e)), s2) \<and>
      entries s2 = entries s1 \<and>
      (\<forall>p \<in> set kpre. map_of (entries s2) p = None))"
proof (intro conjI impI)
  assume a: "addItems_loop pre s = (Inr u, s1) \<and>
    addItem (item_key it) (item_val it) (item_options it) s1 = (Inl e, s2)"
  then have l: "addItems_loop pre s = (Inr u, s1)"
    and f: "addItem (item_key it) (item_val it) (item_options it) s1 = (Inl e, s2)"
    by simp_all
  have "addItems_loop (pre @ it # post) s = (Inl e, s2)"
    by (simp add: addItems_loop_append [OF l] f)
  then show "addItems (pre @ it # post) s = (Inl (new_Error (toString e)), s2)"
    by (simp add: addItems_def catch_rethrow_def)
  show e: "entries s2 = entries s1" using addItem_Inl [OF f] .
  show "\<forall>p \<in> set pre. map_of (entries s2) (item_key p) \<noteq> None"
    using addItems_loop_stored [OF l] e by simp
next
  assume a: "deleteItems_loop kpre s = (Inr u, s1) \<and> deleteItem k s1 = (Inl e, s2)"
  then have l: "deleteItems_loop kpre s = (Inr u, s1)"
    and f: "deleteItem k s1 = (Inl e, s2)"
    by simp_all
  have "deleteItems_loop (kpre @ k # kpost) s = (Inl e, s2)"
    by (simp add: deleteItems_loop_append [OF l] f)
  then show "deleteItems (kpre @ k # kpost) s = (Inl (new_Error (toString e)), s2)"
    by (simp add: deleteItems_def catch_rethrow_def)
  show e: "entries s2 = entries s1" using deleteItem_Inl [OF f] .
  show "\<forall>p \<in> set kpre. map_of (entries s2) p = None"
    using deleteItems_loop_gone [OF l] e by simp
qed

theorem batch_not_atomic_witness:
  "addItems
     [\<lparr>item_key = ''a'', item_val = Text ''1'', item_options = None\<rparr>,
      \<lparr>item_key = ''b'', item_val = Text ''2'', item_options = None\<rparr>,
      \<lparr>item_key = ''c'', item_val = Text ''3'', item_options = None\<rparr>]
     (store_of [(''b'', plain_entry ''0'' None)] []) =
     (Inl (JsError ''Error'' ''Error: Error: Key b already exists''),
      \<lparr>entries =
         [(''b'', plain_entry ''0'' None),
          (''a'', \<lparr>entry_val = Text ''1'', entry_metadata = None,
                   entry_expiration = Some 60, entry_expirationTtl = Some 60\<rparr>)],
       faults = [], list_limit = 1000,
       calls = [CallList,
                CallPut ''a'' (Text ''1'')
                  \<lparr>expiration = Some 60, expirationTtl = Some 60, metadata = None\<rparr>,
                CallList]\<rparr>) \<and>
   deleteItems [''a'', ''b'', ''c'']
     (store_of [(''a'', plain_entry ''1'' None), (''b'', plain_entry ''2'' None),
                (''c'', plain_entry ''3'' None)]
        [None, Some (JsError ''Error'' ''boom'')]) =
     (Inl (JsError ''Error'' ''Error: Error: boom''),
      \<lparr>entries = [(''b'', plain_entry ''2'' None), (''c'', plain_entry ''3'' None)],
       faults = [], list_limit = 1000,
       calls = [CallDelete ''a'', CallDelete ''b'']\<rparr>)"
proof -
  let ?s = "store_of [(''b'', plain_entry ''0'' None)] []"
  let ?a = "\<lparr>item_key = ''a'', item_val = Text ''1'', item_options = None\<rparr>"
  let ?b = "\<lparr>item_key = ''b'', item_val = Text ''2'', item_options = None\<rparr>"
  let ?c = "\<lparr>item_key = ''c'', item_val = Text ''3'', item_options = None\<rparr>"
  let ?s1 = "\<lparr>entries =
         [(''b'', plain_entry ''0'' None),
          (''a'', \<lparr>entry_val = Text ''1'', entry_metadata = None,
                   entry_expiration = Some 60, entry_expirationTtl = Some 60\<rparr>)],
       faults = [], list_limit = 1000,
       calls = [CallList,
                CallPut ''a'' (Text ''1'')
                  \<lparr>expiration = Some 60, expirationTtl = Some 60, metadata = None\<rparr>]\<rparr>"
  let ?s2 = "?s1\<lparr>calls := calls ?s1 @ [CallList]\<rparr>"
  let ?d = "store_of [(''a'', plain_entry ''1'' None), (''b'', plain_entry ''2'' None),
                (''c'', plain_entry ''3'' None)]
        [None, Some (JsError ''Error'' ''boom'')]"
  let ?d1 = "\<lparr>entries = [(''b'', plain_entry ''2'' None), (''c'', plain_entry ''3'' None)],
       faults = [Some (JsError ''Error'' ''boom'')], list_limit = 1000,
       calls = [CallDelete ''a'']\<rparr>"
  let ?d2 = "\<lparr>entries = [(''b'', plain_entry ''2'' None), (''c'', plain_entry ''3'' None)],
       faults = [], list_limit = 1000,
       calls = [CallDelete ''a'', CallDelete ''b'']\<rparr>"
  have h1: "addItems_loop [?a] ?s = (Inr (), ?s1)"
    by (simp add: run_defs)
  have h2: "addItem (item_key ?b) (item_val ?b) (item_options ?b) ?s1 =
      (Inl (JsError ''Error'' ''Error: Key b already exists''), ?s2)"
    by (simp add: run_defs)
  have h3: "deleteItems_loop [''a''] ?d = (Inr (), ?d1)"
    by (simp add: run_defs)
  have h4: "deleteItem ''b'' ?d1 = (Inl (JsError ''Error'' ''Error: boom''), ?d2)"
    by (simp add: run_defs)
  show ?thesis
    using batch_not_atomic [of "[?a]" ?s "()" ?s1 ?b
        "JsError ''Error'' ''Error: Key b already exists''" ?s2 "[?c]"]
      batch_not_atomic [of _ ?d "()" ?d1 _ "JsError ''Error'' ''Error: boom''" ?d2 _
        "[''a'']" "''b''" "[''c'']"]
      h1 h2 h3 h4
    by (simp add: new_Error_def toString_def)
qed

text \<open>
  C8. \<open>getItem\<close> never returns null: it throws or returns an object. So the handlers of
  \<^verbatim>\<open>/api/get\<close> and \<^verbatim>\<open>/api/download\<close> never answer Not Found (404), for any request and
  store. For a key without an entry \<open>getItem\<close> throws, and both handlers answer with the
  status 500; when no store call fails, the message is that of the \<^verbatim>\<open>TypeError\<close> thrown by
  reading \<^verbatim>\<open>valueType\<close> of the null metadata.
\<close>

theorem getItem_never_null:
  "fst (getItem key gopts s) \<noteq> Inr None \<and>
   fst (excute_get q ns) \<noteq> OnNotFound msg \<and>
   fst (excute_download q ns) \<noteq> OnNotFound msg \<and>
   status (fst (excute_get q ns)) \<noteq> 404 \<and>
   status (fst (excute_download q ns)) \<noteq> 404 \<and>
   (map_of (entries s) key = None \<longrightarrow>
      (\<exists>e. fst (getItem key gopts s) = Inl e) \<and>
      (key \<noteq> [] \<longrightarrow>
         status (fst (excute_get (Some key) (Some s))) = 500 \<and>
         status (fst (excute_download (Some key) (Some s))) = 500) \<and>
      (key \<noteq> [] \<and> faults s = [] \<longrightarrow>
         fst (excute_get (Some key) (Some s)) =
           OnError ''TypeError: Cannot read properties of null (reading 'valueType')'' \<and>
         fst (excute_download (Some key) (Some s)) =
           OnError ''TypeError: Cannot read properties of null (reading 'valueType')''))"
proof (intro conjI impI)
  show "fst (getItem key gopts s) \<noteq> Inr None" by (rule getItem_not_null)
  show "status (fst (excute_get q ns)) \<noteq> 404" by (rule excute_get_status)
  show "status (fst (excute_download q ns)) \<noteq> 404" by (rule excute_download_status)
  show "fst (excute_get q ns) \<noteq> OnNotFound msg"
    using excute_get_status [of q ns] by auto
  show "fst (excute_download q ns) \<noteq> OnNotFound msg"
    using excute_download_status [of q ns] by auto
next
  assume m: "map_of (entries s) key = None"
  show "\<exists>e. fst (getItem key gopts s) = Inl e" by (rule getItem_missing [OF m])
  from getItem_missing [OF m, of "[]"] obtain e s1
    where g: "getItem key [] s = (Inl e, s1)"
    by (cases "getItem key [] s") auto
  from getItem_missing [OF m, of "[''arrayBuffer'']"] obtain e' s1'
    where g': "getItem key [''arrayBuffer''] s = (Inl e', s1')"
    by (cases "getItem key [''arrayBuffer''] s") auto
  show "status (fst (excute_get (Some key) (Some s))) = 500" if "key \<noteq> []"
    using that by (simp add: excute_get_def g)
  show "status (fst (excute_download (Some key) (Some s))) = 500" if "key \<noteq> []"
    using that by (simp add: excute_download_def g')
  show "fst (excute_get (Some key) (Some s)) =
      OnError ''TypeError: Cannot read properties of null (reading 'valueType')''"
    if "key \<noteq> [] \<and> faults s = []"
    using that g getItem_missing_no_fault [OF m, of "[]"]
    by (simp add: excute_get_def new_Error_def)
  show "fst (excute_download (Some key) (Some s)) =
      OnError ''TypeError: Cannot read properties of null (reading 'valueType')''"
    if "key \<noteq> [] \<and> faults s = []"
    using that g' getItem_missing_no_fault [OF m, of "[''arrayBuffer'']"]
    by (simp add: excute_download_def new_Error_def)
qed

theorem getItem_never_null_witness:
  "map_of (entries (store_of [] [])) ''a'' = None \<and>
   excute_get (Some ''a'') (Some (store_of [] [])) =
     (OnError ''TypeError: Cannot read properties of null (reading 'valueType')'',
      Some \<lparr>entries = [], faults = [], list_limit = 1000,
            calls = [CallGet ''a'' [], CallGetWithMetadata ''a'']\<rparr>) \<and>
   status (fst (excute_get (Some ''a'') (Some (store_of [] [])))) = 500 \<and>
   excute_download (Some ''a'') (Some (store_of [] [])) =
     (OnError ''TypeError: Cannot read properties of null (reading 'valueType')'',
      Some \<lparr>entries = [], faults = [], list_limit = 1000,
            calls = [CallGet ''a'' [''arrayBuffer''], CallGetWithMetadata ''a'']\<rparr>)"
proof -
  have h: "map_of (entries (store_of [] [])) ''a'' = None"
    by (simp add: store_of_def)
  have e: "excute_get (Some ''a'') (Some (store_of [] [])) =
     (OnError ''TypeError: Cannot read properties of null (reading 'valueType')'',
      Some \<lparr>entries = [], faults = [], list_limit = 1000,
            calls = [CallGet ''a'' [], CallGetWithMetadata ''a'']\<rparr>)"
    by (simp add: excute_get_def run_defs)
  have d: "excute_download (Some ''a'') (Some (store_of [] [])) =
     (OnError ''TypeError: Cannot read properties of null (reading 'valueType')'',
      Some \<lparr>entries = [], faults = [], list_limit = 1000,
            calls = [CallGet ''a'' [''arrayBuffer''], CallGetWithMetadata ''a'']\<rparr>)"
    by (simp add: excute_download_def run_defs)
  show ?thesis
    using h e d
      getItem_never_null [of "''a''" "[]" "store_of [] []" "Some ''a''"
        "Some (store_of [] [])" "[]"]
    by simp
qed

end
